theory Spec2Isabelle
  imports Complex_Main "HOL-Library.Char_ord" "HOL-Library.List_Lexorder"
begin

text \<open>
  The contact-result aggregation, the allowed-contact predicate and the convex-hull helper
  of \<open>contact_checker_common.h\<close>, and the state, snapshot and attachment operations of
  \<open>KDLEnv\<close> (\<open>kdl_env.cpp\<close>), as functions over explicit state, with the properties the
  specification states for them. All definitions come first; the properties follow.
\<close>

section \<open>Common types\<close>

text \<open>
  Failures of the C++ code that are not ordinary return values:
  \<^item> \<open>UndefinedBehaviour\<close>: an index past the end of a vector or joint array, \<open>back()\<close> of
    an empty vector, a read of a default-constructed (uninitialised) transform;
  \<^item> \<open>AssertionFailure\<close>: a failed \<open>assert\<close>.
\<close>

datatype error = UndefinedBehaviour | AssertionFailure

type_synonym Vector3d = "real \<times> real \<times> real"

text \<open>
  A C++ \<open>double\<close> as far as its comparisons go: not-a-number, the two infinities, or a
  finite value. \<open><\<close> and \<open><=\<close> are false as soon as one side is NaN. Rounding is outside
  the model.
\<close>

datatype double = NaN | NegInf | Finite real | PosInf

fun double_less :: "double \<Rightarrow> double \<Rightarrow> bool" where
  "double_less NaN b = False"
| "double_less a NaN = False"
| "double_less NegInf NegInf = False"
| "double_less NegInf b = True"
| "double_less (Finite x) (Finite y) = (x < y)"
| "double_less (Finite x) PosInf = True"
| "double_less (Finite x) NegInf = False"
| "double_less PosInf b = False"

fun double_le :: "double \<Rightarrow> double \<Rightarrow> bool" where
  "double_le NaN b = False"
| "double_le a NaN = False"
| "double_le NegInf b = True"
| "double_le (Finite x) (Finite y) = (x \<le> y)"
| "double_le (Finite x) PosInf = True"
| "double_le (Finite x) NegInf = False"
| "double_le PosInf PosInf = True"
| "double_le PosInf b = False"

section \<open>contact\_checker\_common.h\<close>

type_synonym ObjectPairKey = "string \<times> string"

text \<open>\<open>std::string\<close>'s \<open><\<close> is the lexicographic order on bytes.\<close>

definition getObjectPairKey :: "string \<Rightarrow> string \<Rightarrow> ObjectPairKey" where
  "getObjectPairKey obj1 obj2 = (if obj1 < obj2 then (obj1, obj2) else (obj2, obj1))"

text \<open>\<open>std::find(active.begin(), active.end(), name) != active.end()\<close> is a linear search.\<close>

definition isLinkActive :: "string list \<Rightarrow> string \<Rightarrow> bool" where
  "isLinkActive active name = (active = [] \<or> find (\<lambda>x. x = name) active \<noteq> None)"

text \<open>
  \<open>IsContactAllowedFn\<close> is a \<open>std::function\<close>, which may be null; the \<open>verbose\<close> flag only
  controls debug output.
\<close>

type_synonym IsContactAllowedFn = "(string \<Rightarrow> string \<Rightarrow> bool) option"

definition isContactAllowed :: "string \<Rightarrow> string \<Rightarrow> IsContactAllowedFn \<Rightarrow> bool" where
  "isContactAllowed name1 name2 acm =
     (if name1 = name2 then True
      else case acm of
             None \<Rightarrow> False
           | Some f \<Rightarrow> (if f name1 name2 then True else False))"

text \<open>
  Modelled from the spec: the declarations of \<open>ContactTestType\<close>, \<open>ContactResult\<close> and
  \<open>ContactTestData\<close> (tesseract\_core/basic\_types.h) are not among the sources.
  The spec names the three aggregation policies and speaks of "a policy value outside
  the three"; the commented-out branch of \<open>processResult\<close> names it \<open>LIMITED\<close>.
  A contact carries the pair's names, shape identifiers, the signed distance, the nearest
  points, the normal and the sweep fraction.
\<close>

datatype ContactTestType = FIRST | CLOSEST | ALL' | LIMITED

record ContactResult =
  distance :: double
  link_names :: "string \<times> string"
  type_id :: "int \<times> int"
  nearest_points :: "Vector3d \<times> Vector3d"
  normal :: Vector3d
  cc_time :: real

type_synonym ContactResultVector = "ContactResult list"
type_synonym ContactResultMap = "ObjectPairKey \<rightharpoonup> ContactResultVector"

record ContactTestData =
  type :: ContactTestType
  fn :: IsContactAllowedFn
  "done" :: bool
  res :: ContactResultMap

text \<open>
  \<open>processResult\<close> returns a pointer to the stored contact or \<open>nullptr\<close>; the model returns
  the index of that contact in \<open>cdata.res[key]\<close>, or \<open>None\<close>.
  \<open>std::map::insert\<close> does not overwrite an existing key, and \<open>operator[]\<close> inserts an
  empty vector for a missing key; \<open>back()\<close> and \<open>dr[0]\<close> on an empty vector are undefined.
\<close>

definition processResult ::
  "ContactTestData \<Rightarrow> ContactResult \<Rightarrow> ObjectPairKey \<Rightarrow> bool
     \<Rightarrow> error + (ContactTestData \<times> nat option)" where
  "processResult cdata contact key found =
     (if \<not> found then
        (let data = [contact];
             cdata1 = (if type cdata = FIRST then cdata\<lparr>done := True\<rparr> else cdata)
         in case res cdata1 key of
              None \<Rightarrow> Inr (cdata1\<lparr>res := (res cdata1)(key \<mapsto> data)\<rparr>, Some (length data - 1))
            | Some old \<Rightarrow>
                (if old = [] then Inl UndefinedBehaviour
                 else Inr (cdata1, Some (length old - 1))))
      else if type cdata = FIRST then Inl AssertionFailure
      else
        (let dr = (case res cdata key of None \<Rightarrow> [] | Some v \<Rightarrow> v);
             cdata1 = cdata\<lparr>res := (res cdata)(key \<mapsto> dr)\<rparr>
         in if type cdata = ALL' then
              Inr (cdata1\<lparr>res := (res cdata1)(key \<mapsto> dr @ [contact])\<rparr>, Some (length dr))
            else if type cdata = CLOSEST then
              (case dr of
                 [] \<Rightarrow> Inl UndefinedBehaviour
               | d0 # ds \<Rightarrow>
                   (if double_less (distance contact) (distance d0)
                    then Inr (cdata1\<lparr>res := (res cdata1)(key \<mapsto> contact # ds)\<rparr>, Some 0)
                    else Inr (cdata1, None)))
            else Inr (cdata1, None)))"

text \<open>
  The argument \<open>found\<close> of \<open>processResult\<close> says whether the pair key already has stored
  results. \<open>processContacts\<close> calls \<open>processResult\<close> on the contacts of a query in the
  order found, each with its pair key, with \<open>found\<close> read off the result map;
  \<open>contacts_of key\<close> are the contacts found for one pair.
\<close>

fun processContacts ::
  "ContactTestData \<Rightarrow> (ObjectPairKey \<times> ContactResult) list \<Rightarrow> error + ContactTestData" where
  "processContacts cdata [] = Inr cdata"
| "processContacts cdata (kc # rest) =
     (case processResult cdata (snd kc) (fst kc) (res cdata (fst kc) \<noteq> None) of
        Inl e \<Rightarrow> Inl e
      | Inr (cdata', _) \<Rightarrow> processContacts cdata' rest)"

definition contacts_of :: "ObjectPairKey \<Rightarrow> (ObjectPairKey \<times> ContactResult) list \<Rightarrow> ContactResult list" where
  "contacts_of key kcs = map snd (filter (\<lambda>kc. fst kc = key) kcs)"

text \<open>
  Modelled from the spec: the query loop of \<open>contactTest\<close> is not among the sources.
  Spec, section 4.4: under FIRST, "once recorded, terminate the entire query immediately
  (this is a global flag, not per-pair)" and "any subsequent pair evaluation is skipped".
  The loop takes the contacts the backend would report, in order, each with its pair key,
  and stops as soon as \<open>cdata.done\<close> is set.
\<close>

fun contactTest_loop ::
  "ContactTestData \<Rightarrow> (ObjectPairKey \<times> ContactResult) list \<Rightarrow> error + ContactTestData" where
  "contactTest_loop cdata [] = Inr cdata"
| "contactTest_loop cdata ((key, contact) # rest) =
     (if done cdata then Inr cdata
      else case processResult cdata contact key (res cdata key \<noteq> None) of
             Inl e \<Rightarrow> Inl e
           | Inr (cdata', _) \<Rightarrow> contactTest_loop cdata' rest)"

text \<open>
  The CLOSEST policy in the spec's words: the first contact is stored unconditionally, and
  each later contact replaces the stored one only if its distance is strictly smaller, in
  the comparison of doubles.
\<close>

definition closest_spec :: "ContactResult \<Rightarrow> ContactResult list \<Rightarrow> ContactResult" where
  "closest_spec c0 cs =
     foldl (\<lambda>best c. if double_less (distance c) (distance best) then c else best) c0 cs"

text \<open>
  What CLOSEST leaves for a pair that had \<open>stored\<close> (nothing, or one contact) when the
  contacts \<open>cs\<close> are found for it.
\<close>

definition closest_result :: "ContactResult list \<Rightarrow> ContactResult list \<Rightarrow> ContactResult list option" where
  "closest_result stored cs =
     (case stored of
        [] \<Rightarrow> (case cs of [] \<Rightarrow> None | c # cs' \<Rightarrow> Some [closest_spec c cs'])
      | d # _ \<Rightarrow> Some [closest_spec d cs])"

subsection \<open>Convex hull\<close>

text \<open>
  Modelled from the spec: the convex-hull backend (Bullet's \<open>btConvexHullComputer\<close>) is an
  external library. Spec, section 6: "point-cloud in, half-edge mesh out (vertices,
  edges-with-next-pointers, faces-with-starting-edge); failure signaled via a negative
  scalar return". An edge pointer is an index into \<open>edges\<close>; \<open>faces\<close> holds the index of
  one edge of each face.
\<close>

record HullEdge =
  sourceVertex :: int
  targetVertex :: int
  nextEdgeOfFace :: nat

record btConvexHullComputer =
  val :: real
  vertices :: "Vector3d list"
  edges :: "HullEdge list"
  faces :: "nat list"

datatype LogLevel = DEBUG | ERROR

type_synonym RosLog = "(LogLevel \<times> string) list"

definition edge_at :: "HullEdge list \<Rightarrow> nat \<Rightarrow> error + HullEdge" where
  "edge_at es i = (if i < length es then Inr (es ! i) else Inl UndefinedBehaviour)"

text \<open>
  The \<open>while (c != a)\<close> loop of \<open>createConvexHull\<close>, entered with \<open>edge\<close> already advanced
  and \<open>c\<close> its target vertex. It need not terminate on a malformed mesh: \<open>None\<close> is
  non-termination.
\<close>

partial_function (option) trace_face ::
  "HullEdge list \<Rightarrow> int \<Rightarrow> nat \<Rightarrow> int list \<Rightarrow> (error + int list) option" where
  "trace_face es a edge face =
     (case edge_at es edge of
        Inl e \<Rightarrow> Some (Inl e)
      | Inr ed \<Rightarrow>
          (if targetVertex ed \<noteq> a
           then trace_face es a (nextEdgeOfFace ed) (face @ [targetVertex ed])
           else Some (Inr face)))"

text \<open>The body of the loop over the faces, for one face starting at edge \<open>f\<close>.\<close>

definition hull_face :: "HullEdge list \<Rightarrow> nat \<Rightarrow> (error + int list) option" where
  "hull_face es f =
     (case edge_at es f of
        Inl e \<Rightarrow> Some (Inl e)
      | Inr sourceEdge \<Rightarrow>
          (let a = sourceVertex sourceEdge;
               b = targetVertex sourceEdge
           in case edge_at es (nextEdgeOfFace sourceEdge) of
                Inl e \<Rightarrow> Some (Inl e)
              | Inr edge \<Rightarrow>
                  trace_face es a (nextEdgeOfFace edge) [a, b, targetVertex edge]))"

fun hull_faces :: "HullEdge list \<Rightarrow> nat list \<Rightarrow> int list \<Rightarrow> (error + int list) option" where
  "hull_faces es [] out = Some (Inr out)"
| "hull_faces es (f # fs) out =
     (case hull_face es f of
        None \<Rightarrow> None
      | Some (Inl e) \<Rightarrow> Some (Inl e)
      | Some (Inr face) \<Rightarrow> hull_faces es fs (out @ [int (length face)] @ face))"

text \<open>
  \<open>createConvexHull\<close> with its two output parameters (\<open>vertices0\<close>, \<open>faces0\<close>: what the
  caller's containers held before the call), the backend \<open>conv\<close> as a function of the
  points and the two shrink parameters, and the log \<open>rlog\<close>. The result is the two
  containers, the returned \<open>int\<close> and the log. The points reach the backend as the
  address \<open>&points[0].getX()\<close>, which the function itself never reads.
\<close>

definition createConvexHull ::
  "(Vector3d list \<Rightarrow> real \<Rightarrow> real \<Rightarrow> btConvexHullComputer) \<Rightarrow> RosLog
     \<Rightarrow> Vector3d list \<Rightarrow> int list \<Rightarrow> Vector3d list \<Rightarrow> real \<Rightarrow> real
     \<Rightarrow> (error + (Vector3d list \<times> int list \<times> int \<times> RosLog)) option" where
  "createConvexHull compute rlog vertices0 faces0 input shrink shrinkClamp =
     (let vertices1 = ([] :: Vector3d list);
          faces1 = ([] :: int list);
          conv = compute input shrink shrinkClamp
      in if val conv < 0
         then Some (Inr (vertices1, faces1, - 1, rlog @ [(ERROR, ''Failed to create convex hull'')]))
         else
           (let vertices2 = vertices1 @ vertices conv
            in case hull_faces (edges conv) (faces conv) faces1 of
                 None \<Rightarrow> None
               | Some (Inl e) \<Rightarrow> Some (Inl e)
               | Some (Inr faces2) \<Rightarrow>
                   Some (Inr (vertices2, faces2, int (length (faces conv)), rlog))))"

section \<open>kdl\_env.cpp\<close>

subsection \<open>Transforms\<close>

text \<open>
  \<open>Eigen::Isometry3d\<close>: a rotation matrix (three rows) and a translation, with the
  product of affine transforms. Floating-point rounding is outside the model.
\<close>

type_synonym Matrix3d = "Vector3d \<times> Vector3d \<times> Vector3d"

record Isometry3d =
  linear :: Matrix3d
  translation :: Vector3d

fun dot :: "Vector3d \<Rightarrow> Vector3d \<Rightarrow> real" where
  "dot (a, b, c) (x, y, z) = a * x + b * y + c * z"

fun vec_add :: "Vector3d \<Rightarrow> Vector3d \<Rightarrow> Vector3d" where
  "vec_add (a, b, c) (x, y, z) = (a + x, b + y, c + z)"

fun mat_vec :: "Matrix3d \<Rightarrow> Vector3d \<Rightarrow> Vector3d" where
  "mat_vec (r1, r2, r3) v = (dot r1 v, dot r2 v, dot r3 v)"

fun mat_cols :: "Matrix3d \<Rightarrow> Matrix3d" where
  "mat_cols ((a, b, c), (d, e, f), (g, h, i)) = ((a, d, g), (b, e, h), (c, f, i))"

fun row_mat :: "Vector3d \<Rightarrow> Matrix3d \<Rightarrow> Vector3d" where
  "row_mat r (c1, c2, c3) = (dot r c1, dot r c2, dot r c3)"

fun mat_mul :: "Matrix3d \<Rightarrow> Matrix3d \<Rightarrow> Matrix3d" where
  "mat_mul (r1, r2, r3) m = (row_mat r1 (mat_cols m), row_mat r2 (mat_cols m), row_mat r3 (mat_cols m))"

definition iso_mul :: "Isometry3d \<Rightarrow> Isometry3d \<Rightarrow> Isometry3d" where
  "iso_mul x y =
     \<lparr>linear = mat_mul (linear x) (linear y),
      translation = vec_add (mat_vec (linear x) (translation y)) (translation x)\<rparr>"

definition Identity :: Isometry3d where
  "Identity = \<lparr>linear = ((1, 0, 0), (0, 1, 0), (0, 0, 1)), translation = (0, 0, 0)\<rparr>"

type_synonym TransformMap = "string \<rightharpoonup> Isometry3d"

subsection \<open>The kinematic tree and the environment\<close>

text \<open>
  The KDL tree is an external library's immutable structure: an element has its segment
  (a name and the pose of the segment as a function of its joint value, already converted
  by \<open>KDLToEigen\<close>), the index \<open>q_nr\<close> of its joint in the joint array, and its children.
\<close>

datatype Segment = Segment (getName: string) (pose: "real \<Rightarrow> Isometry3d")

datatype TreeElement =
  TreeElement (segment: Segment) (q_nr: nat) (children: "TreeElement list")

record EnvState =
  joints :: "string \<rightharpoonup> real"
  transforms :: TransformMap

record AttachedBodyInfo =
  object_name :: string
  parent_link_name :: string
  transform :: Isometry3d
  touch_links :: "string list"

text \<open>
  An attachable object is a named bundle of shapes; no function modelled here reads the
  shapes.
\<close>

datatype AttachableObject = AttachableObject (ao_name: string)

text \<open>
  Modelled from the spec: \<open>AllowedCollisionMatrix\<close> and the contact managers are not among
  the sources. Spec, section 3: the matrix is a "mapping from unordered pair-of-names
  (canonicalized: lexicographically smaller name first) to a reason string; pair presence
  means contact between that pair is ignored". Spec, sections 3 and 4.3: a registry holds
  named collision objects with an enabled flag and a start and an end transform, and its
  list of active names; \<open>enable\<close>/\<open>disable\<close> toggle the flag of a registered object,
  \<open>setActiveLinks\<close> stores the names, \<open>setTransform\<close> with one pose sets both transforms
  of a registered object ("by default both poses equal the new single pose").
\<close>

type_synonym AllowedCollisionMatrix = "ObjectPairKey \<rightharpoonup> string"

definition isCollisionAllowed :: "AllowedCollisionMatrix \<Rightarrow> string \<Rightarrow> string \<Rightarrow> bool" where
  "isCollisionAllowed acm link_name1 link_name2 = (acm (getObjectPairKey link_name1 link_name2) \<noteq> None)"

record CollisionObject =
  enabled :: bool
  pose_start :: Isometry3d
  pose_end :: Isometry3d

record ContactManager =
  objects :: "string \<rightharpoonup> CollisionObject"
  active :: "string list"

definition enableCollisionObject :: "ContactManager \<Rightarrow> string \<Rightarrow> ContactManager" where
  "enableCollisionObject m n =
     (case objects m n of
        None \<Rightarrow> m
      | Some co \<Rightarrow> m\<lparr>objects := (objects m)(n \<mapsto> co\<lparr>enabled := True\<rparr>)\<rparr>)"

definition disableCollisionObject :: "ContactManager \<Rightarrow> string \<Rightarrow> ContactManager" where
  "disableCollisionObject m n =
     (case objects m n of
        None \<Rightarrow> m
      | Some co \<Rightarrow> m\<lparr>objects := (objects m)(n \<mapsto> co\<lparr>enabled := False\<rparr>)\<rparr>)"

definition setCollisionObjectsTransform1 ::
  "ContactManager \<Rightarrow> string \<Rightarrow> Isometry3d \<Rightarrow> ContactManager" where
  "setCollisionObjectsTransform1 m n p =
     (case objects m n of
        None \<Rightarrow> m
      | Some co \<Rightarrow> m\<lparr>objects := (objects m)(n \<mapsto> co\<lparr>pose_start := p, pose_end := p\<rparr>)\<rparr>)"

definition setCollisionObjectsTransform :: "ContactManager \<Rightarrow> TransformMap \<Rightarrow> ContactManager" where
  "setCollisionObjectsTransform m tfs =
     m\<lparr>objects := (\<lambda>n. case objects m n of
                          None \<Rightarrow> None
                        | Some co \<Rightarrow>
                            (case tfs n of
                               None \<Rightarrow> Some co
                             | Some p \<Rightarrow> Some (co\<lparr>pose_start := p, pose_end := p\<rparr>)))\<rparr>"

definition setActiveCollisionObjects :: "ContactManager \<Rightarrow> string list \<Rightarrow> ContactManager" where
  "setActiveCollisionObjects m names = m\<lparr>active := names\<rparr>"

text \<open>
  The environment object together with the memory it works in:
  \<^item> \<open>heap\<close> holds the \<open>EnvState\<close> objects by address, \<open>next_addr\<close> is the address the next
    \<open>new EnvState\<close> gets (every address from \<open>next_addr\<close> on is unused);
    \<open>current_state\<close> is the \<open>EnvStatePtr\<close> of the live state;
  \<^item> \<open>ros_log\<close> is what \<open>ROS_ERROR\<close> and \<open>ROS_DEBUG\<close> have written;
  \<^item> \<open>attached_bodies\<close> is an unordered map: an association list in the map's iteration
    order, with distinct keys. Where a new key comes to stand among the entries present
    is the hash table's business, which the standard leaves open: \<open>attached_place\<close> gives
    the position, as a function of the entries present and the new key (libstdc++ links
    a new node at the head of the list when its bucket was empty: position 0). The
    entries present keep their order, as they do in the container while its bucket count
    stays; a rehash, which may reorder them, is outside the model;
  \<^item> the two managers are owned by the environment alone.
  The members carry the source's names without the trailing underscore. \<open>manipulators_\<close>
  is left out: the kinematics objects are neither in the sources nor in the spec.
\<close>

record KDLEnv =
  heap :: "nat \<Rightarrow> EnvState"
  next_addr :: nat
  ros_log :: RosLog
  current_state :: nat
  kdl_jnt_array :: "real list"
  kdl_tree :: TreeElement
  joint_to_qnr :: "string \<rightharpoonup> nat"
  link_names :: "string list"
  active_link_names :: "string list"
  attachable_objects :: "string \<rightharpoonup> AttachableObject"
  attached_bodies :: "(string \<times> AttachedBodyInfo) list"
  attached_place :: "(string \<times> AttachedBodyInfo) list \<Rightarrow> string \<Rightarrow> nat"
  discrete_manager :: ContactManager
  continuous_manager :: ContactManager
  allowed_collision_matrix :: "AllowedCollisionMatrix option"

definition ros_write :: "LogLevel \<Rightarrow> string \<Rightarrow> KDLEnv \<Rightarrow> KDLEnv" where
  "ros_write lvl msg env = env\<lparr>ros_log := ros_log env @ [(lvl, msg)]\<rparr>"

text \<open>A write through an \<open>EnvStatePtr\<close>.\<close>

definition upd_state :: "nat \<Rightarrow> (EnvState \<Rightarrow> EnvState) \<Rightarrow> KDLEnv \<Rightarrow> KDLEnv" where
  "upd_state p f env = env\<lparr>heap := (heap env)(p := f (heap env p))\<rparr>"

text \<open>
  \<open>q(qnr->second) = joint_value\<close> writes into a \<open>KDL::JntArray\<close>; an index past its end is
  undefined behaviour.
\<close>

definition setJointValuesHelper ::
  "KDLEnv \<Rightarrow> real list \<Rightarrow> string \<Rightarrow> real \<Rightarrow> error + (real list \<times> bool \<times> KDLEnv)" where
  "setJointValuesHelper env q joint_name joint_value =
     (case joint_to_qnr env joint_name of
        Some qnr \<Rightarrow>
          (if qnr < length q then Inr (q[qnr := joint_value], True, env)
           else Inl UndefinedBehaviour)
      | None \<Rightarrow>
          Inr (q, False,
               ros_write ERROR (''Tried to set joint name '' @ joint_name @ '' which does not exist!'') env))"

text \<open>
  \<open>calculateTransformsHelper\<close> on a valid iterator, and the loop over the children.
  \<open>q_in(q_nr)\<close> reads the joint array; an index past its end is undefined behaviour.
\<close>

fun calculateTransformsHelper ::
    "TransformMap \<Rightarrow> real list \<Rightarrow> TreeElement \<Rightarrow> Isometry3d \<Rightarrow> error + TransformMap"
  and calculateTransformsChildren ::
    "TransformMap \<Rightarrow> real list \<Rightarrow> TreeElement list \<Rightarrow> Isometry3d \<Rightarrow> error + TransformMap" where
  "calculateTransformsHelper tfs q_in (TreeElement seg qnr cs) parent_frame =
     (if qnr < length q_in then
        (let local_frame = pose seg (q_in ! qnr);
             global_frame = iso_mul parent_frame local_frame
         in calculateTransformsChildren (tfs(getName seg \<mapsto> global_frame)) q_in cs global_frame)
      else Inl UndefinedBehaviour)"
| "calculateTransformsChildren tfs q_in [] global_frame = Inr tfs"
| "calculateTransformsChildren tfs q_in (child # cs) global_frame =
     (case calculateTransformsHelper tfs q_in child global_frame of
        Inl e \<Rightarrow> Inl e
      | Inr tfs' \<Rightarrow> calculateTransformsChildren tfs' q_in cs global_frame)"

text \<open>
  The loop over \<open>attached_bodies_\<close> in \<open>calculateTransforms\<close>. \<open>transforms[parent]\<close> on a
  missing key default-constructs an \<open>Eigen::Isometry3d\<close>, which is uninitialised: reading
  it is undefined behaviour.
\<close>

fun calculateTransforms_attached ::
  "(string \<times> AttachedBodyInfo) list \<Rightarrow> TransformMap \<Rightarrow> error + TransformMap" where
  "calculateTransforms_attached [] tfs = Inr tfs"
| "calculateTransforms_attached (attached # rest) tfs =
     (case tfs (parent_link_name (snd attached)) of
        None \<Rightarrow> Inl UndefinedBehaviour
      | Some parent_tf \<Rightarrow>
          calculateTransforms_attached rest
            (tfs(fst attached \<mapsto> iso_mul parent_tf (transform (snd attached)))))"

text \<open>The iterator \<open>it\<close> is \<open>None\<close> for \<open>getSegments().end()\<close>.\<close>

definition calculateTransforms ::
  "KDLEnv \<Rightarrow> TransformMap \<Rightarrow> real list \<Rightarrow> TreeElement option \<Rightarrow> Isometry3d
     \<Rightarrow> error + TransformMap" where
  "calculateTransforms env tfs q_in it parent_frame =
     (case (case it of
              None \<Rightarrow> Inr tfs
            | Some el \<Rightarrow> calculateTransformsHelper tfs q_in el parent_frame) of
        Inl e \<Rightarrow> Inl e
      | Inr tfs1 \<Rightarrow> calculateTransforms_attached (attached_bodies env) tfs1)"

text \<open>\<open>std::unordered_map::insert(first, last)\<close>: a key already present keeps its value.\<close>

fun insert_range :: "(string \<times> real) list \<Rightarrow> (string \<rightharpoonup> real) \<Rightarrow> (string \<rightharpoonup> real)" where
  "insert_range [] m = m"
| "insert_range (kv # kvs) m =
     insert_range kvs (case m (fst kv) of None \<Rightarrow> m(fst kv \<mapsto> snd kv) | Some _ \<Rightarrow> m)"

text \<open>
  The \<open>for\<close> loop of \<open>setState(const std::unordered_map<std::string, double>&)\<close>; the
  argument is the map's entries in iteration order.
\<close>

fun setState_joints :: "KDLEnv \<Rightarrow> (string \<times> real) list \<Rightarrow> error + KDLEnv" where
  "setState_joints env [] = Inr env"
| "setState_joints env (joint # rest) =
     (case setJointValuesHelper env (kdl_jnt_array env) (fst joint) (snd joint) of
        Inl e \<Rightarrow> Inl e
      | Inr (q, ok, env1) \<Rightarrow>
          (let env2 = env1\<lparr>kdl_jnt_array := q\<rparr>;
               env3 = (if ok
                       then upd_state (current_state env2)
                              (\<lambda>s. s\<lparr>joints := (joints s)(fst joint \<mapsto> snd joint)\<rparr>) env2
                       else env2)
           in setState_joints env3 rest))"

text \<open>
  The common tail of the \<open>setState\<close> overloads: recompute the live transforms and push them
  into both managers.
\<close>

definition setState_transforms :: "KDLEnv \<Rightarrow> error + KDLEnv" where
  "setState_transforms env =
     (case calculateTransforms env (transforms (heap env (current_state env)))
             (kdl_jnt_array env) (Some (kdl_tree env)) Identity of
        Inl e \<Rightarrow> Inl e
      | Inr tfs \<Rightarrow>
          (let env1 = upd_state (current_state env) (\<lambda>s. s\<lparr>transforms := tfs\<rparr>) env
           in Inr (env1\<lparr>discrete_manager := setCollisionObjectsTransform (discrete_manager env1) tfs,
                        continuous_manager := setCollisionObjectsTransform (continuous_manager env1) tfs\<rparr>)))"

definition setState :: "KDLEnv \<Rightarrow> (string \<times> real) list \<Rightarrow> error + KDLEnv" where
  "setState env joints_in =
     (let env1 = upd_state (current_state env)
                   (\<lambda>s. s\<lparr>joints := insert_range joints_in (joints s)\<rparr>) env
      in case setState_joints env1 joints_in of
           Inl e \<Rightarrow> Inl e
         | Inr env2 \<Rightarrow> setState_transforms env2)"

text \<open>
  \<open>setState(const std::vector<std::string>&, const std::vector<double>&)\<close>: the loop runs
  over the indices of \<open>joint_names\<close>; \<open>joint_values[i]\<close> past the end of a shorter vector is
  undefined behaviour.
\<close>

fun setState_vec_joints :: "KDLEnv \<Rightarrow> string list \<Rightarrow> real list \<Rightarrow> error + KDLEnv" where
  "setState_vec_joints env [] joint_values = Inr env"
| "setState_vec_joints env (joint_name # ns) [] = Inl UndefinedBehaviour"
| "setState_vec_joints env (joint_name # ns) (joint_value # vs) =
     (case setJointValuesHelper env (kdl_jnt_array env) joint_name joint_value of
        Inl e \<Rightarrow> Inl e
      | Inr (q, ok, env1) \<Rightarrow>
          (let env2 = env1\<lparr>kdl_jnt_array := q\<rparr>;
               env3 = (if ok
                       then upd_state (current_state env2)
                              (\<lambda>s. s\<lparr>joints := (joints s)(joint_name \<mapsto> joint_value)\<rparr>) env2
                       else env2)
           in setState_vec_joints env3 ns vs))"

definition setState_vec :: "KDLEnv \<Rightarrow> string list \<Rightarrow> real list \<Rightarrow> error + KDLEnv" where
  "setState_vec env joint_names joint_values =
     (case setState_vec_joints env joint_names joint_values of
        Inl e \<Rightarrow> Inl e
      | Inr env1 \<Rightarrow> setState_transforms env1)"



text \<open>
  \<open>attached_bodies_.insert\<close> adds the entry when the key is new, at the position \<open>pos\<close> of
  the iteration order (at the end when \<open>pos\<close> is beyond it); the entries present keep
  their order. \<open>erase\<close> removes the key.
\<close>

definition attached_insert ::
  "nat \<Rightarrow> (string \<times> AttachedBodyInfo) list \<Rightarrow> string \<Rightarrow> AttachedBodyInfo
     \<Rightarrow> (string \<times> AttachedBodyInfo) list" where
  "attached_insert pos m k v =
     (case map_of m k of None \<Rightarrow> take pos m @ (k, v) # drop pos m | Some _ \<Rightarrow> m)"

definition attached_erase ::
  "(string \<times> AttachedBodyInfo) list \<Rightarrow> string \<Rightarrow> (string \<times> AttachedBodyInfo) list" where
  "attached_erase m k = filter (\<lambda>kv. fst kv \<noteq> k) m"

definition attachBody :: "KDLEnv \<Rightarrow> AttachedBodyInfo \<Rightarrow> error + KDLEnv" where
  "attachBody env attached_body_info =
     (let obj = attachable_objects env (object_name attached_body_info);
          body_info = map_of (attached_bodies env) (object_name attached_body_info)
      in if body_info \<noteq> None then
           Inr (ros_write DEBUG (''Tried to attached object '' @ object_name attached_body_info
                  @ '' which is already attached!'') env)
         else if obj = None then
           Inr (ros_write DEBUG (''Tried to attached object '' @ object_name attached_body_info
                  @ '' which does not exist!'') env)
         else if find (\<lambda>x. x = object_name attached_body_info) (link_names env) \<noteq> None then
           Inr (ros_write DEBUG (''Tried to attached object '' @ object_name attached_body_info
                  @ '' with the same name as an existing link!'') env)
         else
           (let env1 = env\<lparr>link_names := link_names env @ [object_name attached_body_info]\<rparr>;
                env2 = (if find (\<lambda>x. x = parent_link_name attached_body_info)
                             (active_link_names env1) \<noteq> None
                        then env1\<lparr>active_link_names :=
                                    active_link_names env1 @ [object_name attached_body_info]\<rparr>
                        else env1);
                env3 = env2\<lparr>attached_bodies :=
                              attached_insert
                                (attached_place env2 (attached_bodies env2)
                                   (object_name attached_body_info))
                                (attached_bodies env2)
                                (object_name attached_body_info) attached_body_info\<rparr>;
                env4 = env3\<lparr>discrete_manager :=
                              enableCollisionObject (discrete_manager env3)
                                (object_name attached_body_info),
                            continuous_manager :=
                              enableCollisionObject (continuous_manager env3)
                                (object_name attached_body_info)\<rparr>
            in case calculateTransforms env4 (transforms (heap env4 (current_state env4)))
                      (kdl_jnt_array env4) (Some (kdl_tree env4)) Identity of
                 Inl e \<Rightarrow> Inl e
               | Inr tfs \<Rightarrow>
                   (case tfs (object_name attached_body_info) of
                      None \<Rightarrow> Inl UndefinedBehaviour
                    | Some tf \<Rightarrow>
                        (let env5 = upd_state (current_state env4) (\<lambda>s. s\<lparr>transforms := tfs\<rparr>) env4;
                             env6 = env5\<lparr>discrete_manager :=
                                           setCollisionObjectsTransform1 (discrete_manager env5)
                                             (object_name attached_body_info) tf,
                                         continuous_manager :=
                                           setCollisionObjectsTransform1 (continuous_manager env5)
                                             (object_name attached_body_info) tf\<rparr>
                         in Inr (env6\<lparr>discrete_manager :=
                                        setActiveCollisionObjects (discrete_manager env6)
                                          (active_link_names env6),
                                      continuous_manager :=
                                        setActiveCollisionObjects (continuous_manager env6)
                                          (active_link_names env6)\<rparr>)))))"

definition detachBody :: "KDLEnv \<Rightarrow> string \<Rightarrow> KDLEnv" where
  "detachBody env n =
     (if map_of (attached_bodies env) n \<noteq> None then
        (let env1 = env\<lparr>attached_bodies := attached_erase (attached_bodies env) n\<rparr>;
             env2 = env1\<lparr>link_names := removeAll n (link_names env1)\<rparr>;
             env3 = env2\<lparr>active_link_names := removeAll n (active_link_names env2)\<rparr>;
             env4 = env3\<lparr>discrete_manager :=
                           setActiveCollisionObjects (discrete_manager env3) (active_link_names env3),
                         continuous_manager :=
                           setActiveCollisionObjects (continuous_manager env3) (active_link_names env3)\<rparr>;
             env5 = env4\<lparr>discrete_manager := disableCollisionObject (discrete_manager env4) n,
                         continuous_manager := disableCollisionObject (continuous_manager env4) n\<rparr>
         in upd_state (current_state env5) (\<lambda>s. s\<lparr>transforms := (transforms s)(n := None)\<rparr>) env5)
      else env)"

definition defaultIsContactAllowedFn :: "KDLEnv \<Rightarrow> string \<Rightarrow> string \<Rightarrow> bool" where
  "defaultIsContactAllowedFn env link_name1 link_name2 =
     (if (case allowed_collision_matrix env of
            None \<Rightarrow> False
          | Some acm \<Rightarrow> isCollisionAllowed acm link_name1 link_name2)
      then True
      else
        (let it1 = map_of (attached_bodies env) link_name1;
             it2 = map_of (attached_bodies env) link_name2
         in case (it1, it2) of
              (None, None) \<Rightarrow> False
            | (None, Some b2) \<Rightarrow>
                (if find (\<lambda>x. x = link_name1) (touch_links b2) \<noteq> None
                    \<or> link_name1 = parent_link_name b2
                 then True else False)
            | (Some b1, _) \<Rightarrow>
                (if find (\<lambda>x. x = link_name2) (touch_links b1) \<noteq> None
                    \<or> link_name2 = parent_link_name b1
                 then True else False)))"

subsection \<open>Well-formedness of an environment\<close>

text \<open>
  The names of the segments of a tree; every joint index of the tree lies within a joint
  array of \<open>n\<close> entries; every attached body's parent link is a segment of the tree or an
  attached body that comes earlier in the iteration (\<open>known\<close> are the names that have a
  transform when the loop over the attached bodies starts).
\<close>

fun segment_names :: "TreeElement \<Rightarrow> string list" where
  "segment_names (TreeElement seg qnr cs) = getName seg # concat (map segment_names cs)"

fun qnrs_in_range :: "nat \<Rightarrow> TreeElement \<Rightarrow> bool" where
  "qnrs_in_range n (TreeElement seg qnr cs) = (qnr < n \<and> list_all (qnrs_in_range n) cs)"

fun parents_ok :: "(string \<times> AttachedBodyInfo) list \<Rightarrow> string list \<Rightarrow> bool" where
  "parents_ok [] known = True"
| "parents_ok (attached # rest) known =
     (parent_link_name (snd attached) \<in> set known \<and> parents_ok rest (fst attached # known))"

text \<open>
  A condition that \<open>attachBody\<close> and \<open>detachBody\<close> maintain: the active links are links,
  both managers hold the environment's list of active links, and a catalog object that is
  not attached is disabled wherever it is registered. \<open>init\<close> ends with
  \<open>setActiveCollisionObjects\<close> on both managers; \<open>loadDiscreteContactManagerPlugin\<close> and
  \<open>loadContinuousContactManagerPlugin\<close> install a new manager without that call.
\<close>

definition env_invariant :: "KDLEnv \<Rightarrow> bool" where
  "env_invariant env =
     (set (active_link_names env) \<subseteq> set (link_names env)
      \<and> active (discrete_manager env) = active_link_names env
      \<and> active (continuous_manager env) = active_link_names env
      \<and> (\<forall>n co. attachable_objects env n \<noteq> None \<and> map_of (attached_bodies env) n = None
             \<and> (objects (discrete_manager env) n = Some co
                 \<or> objects (continuous_manager env) n = Some co)
           \<longrightarrow> \<not> enabled co))"

subsection \<open>A snapshot in the spec's words\<close>

text \<open>
  "It clones the live joint array, overlays only the given joints": the joint array and the
  joint values with the given joints overlaid, a name outside the tree being skipped, and
  the diagnostics for the names outside the tree. \<open>jq\<close> is \<open>joint_to_qnr_\<close>.
\<close>

fun overlay_array :: "(string \<rightharpoonup> nat) \<Rightarrow> real list \<Rightarrow> string list \<Rightarrow> real list \<Rightarrow> real list" where
  "overlay_array jq q [] vs = q"
| "overlay_array jq q (n # ns) [] = q"
| "overlay_array jq q (n # ns) (v # vs) =
     overlay_array jq (case jq n of None \<Rightarrow> q | Some i \<Rightarrow> q[i := v]) ns vs"



section \<open>Example inputs\<close>

text \<open>
  A contact at a given distance and a fresh \<open>ContactTestData\<close>; an environment with the
  tree \<open>base\<close> -- \<open>link1\<close> (one prismatic joint \<open>j1\<close> along x), the catalog object \<open>box\<close>
  registered and disabled in both managers, and nothing attached; two attached bodies
  \<open>A\<close> and \<open>B\<close>, of which \<open>B\<close> names \<open>A\<close> as a touch link; an attachment of \<open>box\<close> to
  \<open>link1\<close>; a backend that fails.
\<close>

definition example_contact :: "real \<Rightarrow> ContactResult" where
  "example_contact d =
     \<lparr>distance = Finite d, link_names = (''a'', ''b''), type_id = (0, 0),
      nearest_points = ((0, 0, 0), (0, 0, 0)), normal = (0, 0, 1), cc_time = - 1\<rparr>"

definition example_cdata :: "ContactTestType \<Rightarrow> ContactTestData" where
  "example_cdata t = \<lparr>type = t, fn = None, done = False, res = Map.empty\<rparr>"

definition example_tree :: TreeElement where
  "example_tree =
     TreeElement (Segment ''base'' (\<lambda>q. Identity)) 0
       [TreeElement
          (Segment ''link1''
             (\<lambda>q. \<lparr>linear = ((1, 0, 0), (0, 1, 0), (0, 0, 1)), translation = (q, 0, 0)\<rparr>)) 0 []]"

definition example_state :: EnvState where
  "example_state =
     \<lparr>joints = [''j1'' \<mapsto> 0], transforms = [''base'' \<mapsto> Identity, ''link1'' \<mapsto> Identity]\<rparr>"

definition example_object :: "bool \<Rightarrow> CollisionObject" where
  "example_object en = \<lparr>enabled = en, pose_start = Identity, pose_end = Identity\<rparr>"

definition example_manager :: ContactManager where
  "example_manager =
     \<lparr>objects = [''base'' \<mapsto> example_object True, ''link1'' \<mapsto> example_object True,
                 ''box'' \<mapsto> example_object False],
      active = [''link1'']\<rparr>"

definition example_env :: KDLEnv where
  "example_env =
     \<lparr>heap = (\<lambda>_. example_state), next_addr = 1, ros_log = [], current_state = 0,
      kdl_jnt_array = [0], kdl_tree = example_tree, joint_to_qnr = [''j1'' \<mapsto> 0],
      link_names = [''base'', ''link1''], active_link_names = [''link1''],
      attachable_objects = [''box'' \<mapsto> AttachableObject ''box''],
      attached_bodies = [], attached_place = (\<lambda>m k. 0),
      discrete_manager = example_manager, continuous_manager = example_manager,
      allowed_collision_matrix = Some Map.empty\<rparr>"

definition example_attached :: "(string \<times> AttachedBodyInfo) list" where
  "example_attached =
     [(''A'', \<lparr>object_name = ''A'', parent_link_name = ''link1'', transform = Identity,
               touch_links = []\<rparr>),
      (''B'', \<lparr>object_name = ''B'', parent_link_name = ''base'', transform = Identity,
               touch_links = [''A'']\<rparr>)]"

definition example_box :: AttachedBodyInfo where
  "example_box =
     \<lparr>object_name = ''box'', parent_link_name = ''link1'',
      transform = \<lparr>linear = ((1, 0, 0), (0, 1, 0), (0, 0, 1)), translation = (1, 0, 0)\<rparr>,
      touch_links = [''link1'']\<rparr>"

text \<open>
  The environment after \<open>loadDiscreteContactManagerPlugin\<close> has replaced the discrete
  manager: the same objects are registered again, the new manager's active list is empty.
\<close>

definition example_env_reloaded :: KDLEnv where
  "example_env_reloaded = example_env\<lparr>discrete_manager := example_manager\<lparr>active := []\<rparr>\<rparr>"

text \<open>
  A catalog with a gripper and a tool; the gripper is attached to \<open>link1\<close>, the tool to the
  gripper, each one unit along x from its parent.
\<close>

definition example_manager_chain :: ContactManager where
  "example_manager_chain =
     \<lparr>objects = [''base'' \<mapsto> example_object True, ''link1'' \<mapsto> example_object True,
                 ''gripper'' \<mapsto> example_object False, ''tool'' \<mapsto> example_object False],
      active = [''link1'']\<rparr>"

definition example_env_chain :: KDLEnv where
  "example_env_chain =
     example_env\<lparr>attachable_objects :=
                   [''gripper'' \<mapsto> AttachableObject ''gripper'', ''tool'' \<mapsto> AttachableObject ''tool''],
                 discrete_manager := example_manager_chain,
                 continuous_manager := example_manager_chain\<rparr>"

definition example_gripper :: AttachedBodyInfo where
  "example_gripper =
     \<lparr>object_name = ''gripper'', parent_link_name = ''link1'',
      transform = \<lparr>linear = ((1, 0, 0), (0, 1, 0), (0, 0, 1)), translation = (1, 0, 0)\<rparr>,
      touch_links = [''link1'']\<rparr>"

definition example_tool :: AttachedBodyInfo where
  "example_tool =
     \<lparr>object_name = ''tool'', parent_link_name = ''gripper'',
      transform = \<lparr>linear = ((1, 0, 0), (0, 1, 0), (0, 0, 1)), translation = (1, 0, 0)\<rparr>,
      touch_links = [''gripper'']\<rparr>"

text \<open>
  Attach the gripper, attach the tool, move the joint \<open>j1\<close> to 2: the transforms of the
  gripper and of the tool in the live state, and the order in which the attached bodies
  are visited.
\<close>

definition example_chain_run ::
  "(Isometry3d option \<times> Isometry3d option \<times> string list) option" where
  "example_chain_run =
     (case attachBody example_env_chain example_gripper of
        Inl e \<Rightarrow> None
      | Inr env1 \<Rightarrow>
          (case attachBody env1 example_tool of
             Inl e \<Rightarrow> None
           | Inr env2 \<Rightarrow>
               (case setState env2 [(''j1'', 2)] of
                  Inl e \<Rightarrow> None
                | Inr env3 \<Rightarrow>
                    Some (transforms (heap env3 (current_state env3)) ''gripper'',
                          transforms (heap env3 (current_state env3)) ''tool'',
                          map fst (attached_bodies env3)))))"

definition example_hull_failure :: "Vector3d list \<Rightarrow> real \<Rightarrow> real \<Rightarrow> btConvexHullComputer" where
  "example_hull_failure input shrink shrinkClamp = \<lparr>val = - 1, vertices = [], edges = [], faces = []\<rparr>"

text \<open>The half-edge mesh of a tetrahedron, as the backend would return it.\<close>

definition example_tetrahedron :: "Vector3d list \<Rightarrow> real \<Rightarrow> real \<Rightarrow> btConvexHullComputer" where
  "example_tetrahedron input shrink shrinkClamp =
     \<lparr>val = 0, vertices = input,
      edges =
        [\<lparr>sourceVertex = 0, targetVertex = 1, nextEdgeOfFace = 1\<rparr>,
         \<lparr>sourceVertex = 1, targetVertex = 2, nextEdgeOfFace = 2\<rparr>,
         \<lparr>sourceVertex = 2, targetVertex = 0, nextEdgeOfFace = 0\<rparr>,
         \<lparr>sourceVertex = 0, targetVertex = 3, nextEdgeOfFace = 4\<rparr>,
         \<lparr>sourceVertex = 3, targetVertex = 1, nextEdgeOfFace = 5\<rparr>,
         \<lparr>sourceVertex = 1, targetVertex = 0, nextEdgeOfFace = 3\<rparr>,
         \<lparr>sourceVertex = 1, targetVertex = 3, nextEdgeOfFace = 7\<rparr>,
         \<lparr>sourceVertex = 3, targetVertex = 2, nextEdgeOfFace = 8\<rparr>,
         \<lparr>sourceVertex = 2, targetVertex = 1, nextEdgeOfFace = 6\<rparr>,
         \<lparr>sourceVertex = 0, targetVertex = 2, nextEdgeOfFace = 10\<rparr>,
         \<lparr>sourceVertex = 2, targetVertex = 3, nextEdgeOfFace = 11\<rparr>,
         \<lparr>sourceVertex = 3, targetVertex = 0, nextEdgeOfFace = 9\<rparr>],
      faces = [0, 3, 6, 9]\<rparr>"

section \<open>Link activity\<close>

lemma find_eq_None_iff: "(find (\<lambda>x. x = n) xs = None) = (n \<notin> set xs)"
  by (induction xs) auto

text \<open>
  C10. With an empty active list every link is active; a link is inactive only when the
  list is non-empty and does not contain its name.
\<close>

theorem isLinkActive_empty_means_all:
  "isLinkActive [] n \<and>
   ((\<not> isLinkActive names n) = (names \<noteq> [] \<and> n \<notin> set names))"
  by (simp add: isLinkActive_def find_eq_None_iff)

theorem isLinkActive_empty_means_all_witness:
  "isLinkActive [] ''link1'' \<and> \<not> isLinkActive [''base''] ''link1''
   \<and> isLinkActive [''base'', ''link1''] ''link1''"
proof -
  from isLinkActive_empty_means_all [of "''link1''" "[''base'']"]
  have a: "isLinkActive [] ''link1''"
    and b: "(\<not> isLinkActive [''base''] ''link1'')
              = ([''base''] \<noteq> [] \<and> ''link1'' \<notin> set [''base''])"
    by blast+
  have "[''base''] \<noteq> [] \<and> ''link1'' \<notin> set [''base'']"
    by simp
  with b have c: "\<not> isLinkActive [''base''] ''link1''"
    by blast
  from isLinkActive_empty_means_all [of "''link1''" "[''base'', ''link1'']"]
  have "(\<not> isLinkActive [''base'', ''link1''] ''link1'')
          = ([''base'', ''link1''] \<noteq> [] \<and> ''link1'' \<notin> set [''base'', ''link1''])"
    by blast
  then have d: "isLinkActive [''base'', ''link1''] ''link1''"
    by simp
  from a c d show ?thesis by blast
qed

section \<open>Aggregation of contact results\<close>

lemma res_upd_triv:
  "res cdata key = Some v \<Longrightarrow> cdata\<lparr>res := (res cdata)(key \<mapsto> v)\<rparr> = cdata"
  by (simp add: map_upd_triv)

lemma processResult_CLOSEST_found:
  assumes "type cdata = CLOSEST" and "res cdata key = Some (d # ds)"
  shows "processResult cdata c key True =
           (if double_less (distance c) (distance d)
            then Inr (cdata\<lparr>res := (res cdata)(key \<mapsto> c # ds)\<rparr>, Some 0)
            else Inr (cdata, None))"
  using assms by (simp add: processResult_def res_upd_triv)

lemma processResult_not_found:
  assumes "type cdata \<noteq> FIRST" and "res cdata key = None"
  shows "processResult cdata c key False =
           Inr (cdata\<lparr>res := (res cdata)(key \<mapsto> [c])\<rparr>, Some 0)"
  using assms by (simp add: processResult_def)

lemma processResult_FIRST_not_found:
  assumes "type cdata = FIRST" and "res cdata key = None"
  shows "processResult cdata c key False =
           Inr (cdata\<lparr>done := True, res := (res cdata)(key \<mapsto> [c])\<rparr>, Some 0)"
  using assms by (simp add: processResult_def)

lemma processResult_other_found:
  assumes "type cdata = LIMITED" and "res cdata key = Some v"
  shows "processResult cdata c key True = Inr (cdata, None)"
  using assms by (simp add: processResult_def res_upd_triv)

subsection \<open>CLOSEST\<close>

lemma double_less_NaN_right [simp]: "double_less a NaN = False"
  by (cases a) simp_all

lemma double_le_NaN_right [simp]: "double_le a NaN = False"
  by (cases a) simp_all

lemma double_less_not_NaN: "double_less a b \<Longrightarrow> a \<noteq> NaN \<and> b \<noteq> NaN"
  by (cases a; cases b) simp_all

lemma double_less_imp_le: "double_less a b \<Longrightarrow> double_le a b"
  by (cases a; cases b) simp_all

lemma double_le_refl: "a \<noteq> NaN \<Longrightarrow> double_le a a"
  by (cases a) simp_all

lemma double_le_trans: "double_le a b \<Longrightarrow> double_le b c \<Longrightarrow> double_le a c"
  by (cases a; cases b; cases c) simp_all

lemma double_le_total: "a \<noteq> NaN \<Longrightarrow> b \<noteq> NaN \<Longrightarrow> \<not> double_less a b \<Longrightarrow> double_le b a"
  by (cases a; cases b) simp_all

lemma closest_spec_NaN_first: "distance c0 = NaN \<Longrightarrow> closest_spec c0 cs = c0"
  unfolding closest_spec_def by (induction cs) simp_all

lemma closest_spec_not_NaN: "distance c0 \<noteq> NaN \<Longrightarrow> distance (closest_spec c0 cs) \<noteq> NaN"
  unfolding closest_spec_def
  by (induction cs arbitrary: c0) (auto dest: double_less_not_NaN)

lemma closest_spec_le:
  "distance c0 \<noteq> NaN \<Longrightarrow> double_le (distance (closest_spec c0 cs)) (distance c0)"
proof (induction cs arbitrary: c0)
  case Nil
  then show ?case by (simp add: closest_spec_def double_le_refl)
next
  case (Cons c cs)
  let ?b = "if double_less (distance c) (distance c0) then c else c0"
  have step: "closest_spec c0 (c # cs) = closest_spec ?b cs"
    by (simp add: closest_spec_def)
  have nb: "distance ?b \<noteq> NaN"
    using Cons.prems by (auto dest: double_less_not_NaN)
  have "double_le (distance ?b) (distance c0)"
    using Cons.prems by (auto intro: double_less_imp_le double_le_refl)
  with Cons.IH [OF nb] show ?case
    unfolding step by (rule double_le_trans)
qed

lemma closest_spec_min:
  "distance c0 \<noteq> NaN \<Longrightarrow> x \<in> set (c0 # cs) \<Longrightarrow> distance x \<noteq> NaN \<Longrightarrow>
   double_le (distance (closest_spec c0 cs)) (distance x)"
proof (induction cs arbitrary: c0)
  case Nil
  then show ?case by (simp add: closest_spec_def double_le_refl)
next
  case (Cons c cs)
  let ?b = "if double_less (distance c) (distance c0) then c else c0"
  have step: "closest_spec c0 (c # cs) = closest_spec ?b cs"
    by (simp add: closest_spec_def)
  have nb: "distance ?b \<noteq> NaN"
    using Cons.prems(1) by (auto dest: double_less_not_NaN)
  have le_b: "double_le (distance (closest_spec ?b cs)) (distance ?b)"
    by (rule closest_spec_le [OF nb])
  from Cons.prems(2) consider "x = c0" | "x = c" | "x \<in> set cs" by auto
  then show ?case
  proof cases
    case 1
    have "double_le (distance ?b) (distance c0)"
      using Cons.prems(1) by (auto intro: double_less_imp_le double_le_refl)
    with le_b show ?thesis unfolding step 1 by (rule double_le_trans)
  next
    case 2
    have "double_le (distance ?b) (distance c)"
      using Cons.prems(1,3) unfolding 2
      by (auto intro: double_le_refl double_le_total)
    with le_b show ?thesis unfolding step 2 by (rule double_le_trans)
  next
    case 3
    then have "x \<in> set (?b # cs)" by simp
    from Cons.IH [OF nb this Cons.prems(3)] show ?thesis unfolding step .
  qed
qed

lemma closest_spec_mem: "closest_spec c0 cs \<in> set (c0 # cs)"
  unfolding closest_spec_def
  by (induction cs arbitrary: c0) auto

lemma closest_spec_Cons:
  "closest_spec d (c # cs) =
     closest_spec (if double_less (distance c) (distance d) then c else d) cs"
  by (simp add: closest_spec_def)

lemma processContacts_CLOSEST:
  assumes "type cdata = CLOSEST"
    and "\<forall>k v. res cdata k = Some v \<longrightarrow> length v = 1"
  shows "\<exists>cdata'. processContacts cdata kcs = Inr cdata'
           \<and> (\<forall>k. res cdata' k =
                  closest_result (case res cdata k of None \<Rightarrow> [] | Some v \<Rightarrow> v) (contacts_of k kcs))"
  using assms
proof (induction kcs arbitrary: cdata)
  case Nil
  have "res cdata k = closest_result (case res cdata k of None \<Rightarrow> [] | Some v \<Rightarrow> v) []" for k
  proof (cases "res cdata k")
    case None
    then show ?thesis by (simp add: closest_result_def)
  next
    case (Some v)
    with Nil(2) have "length v = 1" by blast
    then obtain d where "v = [d]" by (cases v) auto
    with Some show ?thesis by (simp add: closest_result_def closest_spec_def)
  qed
  then show ?case by (simp add: contacts_of_def)
next
  case (Cons kc rest)
  obtain key c where kc: "kc = (key, c)" by (cases kc)
  let ?new = "case res cdata key of
                None \<Rightarrow> [c]
              | Some v \<Rightarrow> (if double_less (distance c) (distance (hd v)) then [c] else v)"
  let ?cd = "cdata\<lparr>res := (res cdata)(key \<mapsto> ?new)\<rparr>"
  have step: "\<exists>r. processResult cdata c key (res cdata key \<noteq> None) = Inr (?cd, r)"
  proof (cases "res cdata key")
    case None
    then show ?thesis
      using Cons.prems(1) processResult_not_found [of cdata key c] by simp
  next
    case (Some v)
    with Cons.prems(2) have "length v = 1" by blast
    then obtain d where v: "v = [d]" by (cases v) auto
    have f: "(res cdata key \<noteq> None) = True" using Some by simp
    show ?thesis
      unfolding f processResult_CLOSEST_found [OF Cons.prems(1) Some [unfolded v], of c]
      using Some v by (simp add: res_upd_triv)
  qed
  then obtain r where pr: "processResult cdata c key (res cdata key \<noteq> None) = Inr (?cd, r)"
    by blast
  have t: "type ?cd = CLOSEST" using Cons.prems(1) by simp
  have one: "\<forall>k v. res ?cd k = Some v \<longrightarrow> length v = 1"
    using Cons.prems(2) by (auto split: option.splits if_splits)
  from Cons.IH [OF t one] obtain cdata' where
    run: "processContacts ?cd rest = Inr cdata'"
    and all: "\<And>k. res cdata' k =
                  closest_result (case res ?cd k of None \<Rightarrow> [] | Some v \<Rightarrow> v) (contacts_of k rest)"
    by blast
  have "processContacts cdata (kc # rest) = Inr cdata'"
    unfolding kc using pr run by simp
  moreover have "res cdata' k =
      closest_result (case res cdata k of None \<Rightarrow> [] | Some v \<Rightarrow> v) (contacts_of k (kc # rest))" for k
  proof (cases "k = key")
    case False
    then show ?thesis unfolding all [of k] kc by (simp add: contacts_of_def)
  next
    case True
    show ?thesis
    proof (cases "res cdata key")
      case None
      then show ?thesis unfolding True all [of key] kc
        by (simp add: contacts_of_def closest_result_def)
    next
      case (Some v)
      with Cons.prems(2) have "length v = 1" by blast
      then obtain d where v: "v = [d]" by (cases v) auto
      show ?thesis unfolding True all [of key] kc
        using Some v by (simp add: contacts_of_def closest_result_def closest_spec_Cons)
    qed
  qed
  ultimately show ?case by blast
qed

text \<open>
  C3, as stated, fails on a distance that is not a number: a first contact with a NaN
  distance is stored and never replaced, and NaN is not less than or equal to the
  distance 1 of the contact processed after it.
\<close>

theorem CLOSEST_keeps_NaN:
  "processContacts (example_cdata CLOSEST)
     [((''a'', ''b''), (example_contact 0)\<lparr>distance := NaN\<rparr>), ((''a'', ''b''), example_contact 1)]
   = Inr ((example_cdata CLOSEST)\<lparr>res := [(''a'', ''b'') \<mapsto> [(example_contact 0)\<lparr>distance := NaN\<rparr>]]\<rparr>)
   \<and> \<not> double_le (distance ((example_contact 0)\<lparr>distance := NaN\<rparr>)) (distance (example_contact 1))"
  by (simp add: processResult_def example_cdata_def example_contact_def)

text \<open>
  C3, amended. Under CLOSEST, a query that starts with an empty result map retains, for
  every pair key with at least one contact, exactly one contact: with \<open>c # cs\<close> the
  contacts found for the pair, in order, it is \<open>closest_spec c cs\<close>. The first contact is
  stored unconditionally, a later contact \<open>x\<close> replaces the stored one exactly when its
  distance is strictly smaller in the comparison of doubles, and the stored contact is one
  of the contacts processed for the pair. When the first contact's distance is a number,
  the stored distance is less than or equal to every processed distance that is a number;
  a first contact whose distance is NaN stays. A pair without contacts has no entry.
\<close>

theorem CLOSEST_keeps_minimum:
  assumes "type cdata = CLOSEST" and "res cdata = Map.empty"
  shows "(\<exists>cdata'. processContacts cdata kcs = Inr cdata'
            \<and> (\<forall>key. res cdata' key =
                   (case contacts_of key kcs of
                      [] \<Rightarrow> None
                    | c # cs \<Rightarrow> Some [closest_spec c cs])))
         \<and> closest_spec c [] = c
         \<and> closest_spec c (cs @ [x]) =
               (if double_less (distance x) (distance (closest_spec c cs))
                then x else closest_spec c cs)
         \<and> closest_spec c cs \<in> set (c # cs)
         \<and> (distance c \<noteq> NaN \<longrightarrow>
               (\<forall>y \<in> set (c # cs). distance y \<noteq> NaN \<longrightarrow>
                  double_le (distance (closest_spec c cs)) (distance y)))
         \<and> (distance c = NaN \<longrightarrow> closest_spec c cs = c)"
proof -
  have one: "\<forall>k v. res cdata k = Some v \<longrightarrow> length v = 1"
    using assms(2) by simp
  from processContacts_CLOSEST [OF assms(1) one, of kcs] obtain cdata' where
    run: "processContacts cdata kcs = Inr cdata'"
    and all: "\<And>k. res cdata' k =
                  closest_result (case res cdata k of None \<Rightarrow> [] | Some v \<Rightarrow> v) (contacts_of k kcs)"
    by blast
  have "res cdata' key = (case contacts_of key kcs of [] \<Rightarrow> None | c # cs \<Rightarrow> Some [closest_spec c cs])"
    for key
    unfolding all [of key] using assms(2) by (simp add: closest_result_def)
  with run have 1: "\<exists>cdata'. processContacts cdata kcs = Inr cdata'
            \<and> (\<forall>key. res cdata' key =
                   (case contacts_of key kcs of
                      [] \<Rightarrow> None
                    | c # cs \<Rightarrow> Some [closest_spec c cs]))"
    by blast
  have 2: "closest_spec c [] = c" by (simp add: closest_spec_def)
  have 3: "closest_spec c (cs @ [x]) =
               (if double_less (distance x) (distance (closest_spec c cs))
                then x else closest_spec c cs)"
    by (simp add: closest_spec_def)
  have 4: "distance c \<noteq> NaN \<longrightarrow>
               (\<forall>y \<in> set (c # cs). distance y \<noteq> NaN \<longrightarrow>
                  double_le (distance (closest_spec c cs)) (distance y))"
    using closest_spec_min by blast
  have 5: "distance c = NaN \<longrightarrow> closest_spec c cs = c"
    using closest_spec_NaN_first by blast
  from 1 2 3 4 5 closest_spec_mem [of c cs] show ?thesis by blast
qed

theorem CLOSEST_keeps_minimum_witness:
  "\<exists>cdata'. processContacts (example_cdata CLOSEST)
       [((''a'', ''b''), example_contact 3), ((''a'', ''c''), example_contact 0),
        ((''a'', ''b''), example_contact 1), ((''a'', ''b''), (example_contact 0)\<lparr>distance := NaN\<rparr>),
        ((''a'', ''b''), example_contact 2), ((''a'', ''b''), example_contact 1)] = Inr cdata'
     \<and> res cdata' (''a'', ''b'') = Some [example_contact 1]
     \<and> res cdata' (''a'', ''c'') = Some [example_contact 0]
     \<and> res cdata' (''b'', ''c'') = None
     \<and> double_le (distance (example_contact 1)) (distance (example_contact 3))"
proof -
  have h1: "type (example_cdata CLOSEST) = CLOSEST"
    by (simp add: example_cdata_def)
  have h2: "res (example_cdata CLOSEST) = Map.empty"
    by (simp add: example_cdata_def)
  let ?kcs = "[((''a'', ''b''), example_contact 3), ((''a'', ''c''), example_contact 0),
        ((''a'', ''b''), example_contact 1), ((''a'', ''b''), (example_contact 0)\<lparr>distance := NaN\<rparr>),
        ((''a'', ''b''), example_contact 2), ((''a'', ''b''), example_contact 1)]"
  let ?cs = "[example_contact 1, (example_contact 0)\<lparr>distance := NaN\<rparr>,
              example_contact 2, example_contact 1]"
  note inst = CLOSEST_keeps_minimum [OF h1 h2, of ?kcs "example_contact 3" ?cs]
  from inst obtain cdata' where
    run: "processContacts (example_cdata CLOSEST) ?kcs = Inr cdata'"
    and all: "\<And>key. res cdata' key =
                   (case contacts_of key ?kcs of
                      [] \<Rightarrow> None
                    | c # cs \<Rightarrow> Some [closest_spec c cs])"
    by blast
  have m: "closest_spec (example_contact 3) ?cs = example_contact 1"
    by (simp add: closest_spec_def example_contact_def)
  from inst have "distance (example_contact 3) \<noteq> NaN \<longrightarrow>
               (\<forall>y \<in> set (example_contact 3 # ?cs). distance y \<noteq> NaN \<longrightarrow>
                  double_le (distance (closest_spec (example_contact 3) ?cs)) (distance y))"
    by blast
  then have le: "double_le (distance (example_contact 1)) (distance (example_contact 3))"
    unfolding m by (simp add: example_contact_def)
  have "res cdata' (''a'', ''b'') = Some [example_contact 1]"
    unfolding all by (simp add: contacts_of_def closest_spec_def example_contact_def)
  moreover have "res cdata' (''a'', ''c'') = Some [example_contact 0]"
    unfolding all by (simp add: contacts_of_def closest_spec_def example_contact_def)
  moreover have "res cdata' (''b'', ''c'') = None"
    unfolding all by (simp add: contacts_of_def)
  ultimately show ?thesis using run le by blast
qed

subsection \<open>FIRST\<close>

lemma contactTest_loop_done: "done cdata \<Longrightarrow> contactTest_loop cdata cs = Inr cdata"
  by (cases cs) auto

text \<open>
  C2. Under FIRST, a query that starts with an empty result map and the flag unset
  records the first contact processed, sets \<open>done\<close> with it, and records nothing after it:
  whatever contacts follow, the result map holds that one contact and no other.
\<close>

theorem FIRST_records_at_most_one:
  assumes "type cdata = FIRST" and "\<not> done cdata" and "res cdata = Map.empty"
  shows "processResult cdata c key False = Inr (cdata\<lparr>done := True, res := [key \<mapsto> [c]]\<rparr>, Some 0)
       \<and> contactTest_loop cdata [] = Inr cdata
       \<and> contactTest_loop cdata ((key, c) # rest) = Inr (cdata\<lparr>done := True, res := [key \<mapsto> [c]]\<rparr>)
       \<and> (\<exists>cdata'. contactTest_loop cdata cs = Inr cdata'
            \<and> (\<forall>k1 k2 v1 v2. res cdata' k1 = Some v1 \<and> res cdata' k2 = Some v2
                  \<longrightarrow> k1 = k2 \<and> length v1 = 1))"
proof -
  have nf: "res cdata key = None" for key
    using assms by simp
  have pr: "processResult cdata c key False
              = Inr (cdata\<lparr>done := True, res := [key \<mapsto> [c]]\<rparr>, Some 0)" for c key
    using processResult_FIRST_not_found [OF assms(1) nf, of c key] assms(3) by simp
  have one: "contactTest_loop cdata ((key, c) # rest)
               = Inr (cdata\<lparr>done := True, res := [key \<mapsto> [c]]\<rparr>)" for c key rest
    using assms(2) pr [of c key] nf [of key] by (simp add: contactTest_loop_done)
  have "\<exists>cdata'. contactTest_loop cdata cs = Inr cdata'
            \<and> (\<forall>k1 k2 v1 v2. res cdata' k1 = Some v1 \<and> res cdata' k2 = Some v2
                  \<longrightarrow> k1 = k2 \<and> length v1 = 1)"
  proof (cases cs)
    case Nil
    then show ?thesis using assms(3) by simp
  next
    case (Cons kc rest)
    obtain k c' where kc: "kc = (k, c')" by (cases kc)
    show ?thesis unfolding Cons kc one
      by (auto split: if_splits)
  qed
  with pr one show ?thesis by simp
qed

theorem FIRST_records_at_most_one_witness:
  "contactTest_loop (example_cdata FIRST)
     [((''a'', ''b''), example_contact 2), ((''a'', ''c''), example_contact 1),
      ((''a'', ''b''), example_contact 0)]
   = Inr ((example_cdata FIRST)\<lparr>done := True, res := [(''a'', ''b'') \<mapsto> [example_contact 2]]\<rparr>)"
proof -
  have h1: "type (example_cdata FIRST) = FIRST"
    by (simp add: example_cdata_def)
  have h2: "\<not> done (example_cdata FIRST)"
    by (simp add: example_cdata_def)
  have h3: "res (example_cdata FIRST) = Map.empty"
    by (simp add: example_cdata_def)
  from FIRST_records_at_most_one [OF h1 h2 h3]
  show ?thesis by blast
qed

subsection \<open>A policy outside FIRST, ALL and CLOSEST\<close>

text \<open>
  C4, as stated, fails: with the policy \<open>LIMITED\<close> and a pair key that has no stored
  result, \<open>processResult\<close> stores the contact.
\<close>

theorem other_policy_records_first_contact:
  "processResult (example_cdata LIMITED) (example_contact 1) (''a'', ''b'') False
     = Inr ((example_cdata LIMITED)\<lparr>res := [(''a'', ''b'') \<mapsto> [example_contact 1]]\<rparr>, Some 0)
   \<and> res ((example_cdata LIMITED)\<lparr>res := [(''a'', ''b'') \<mapsto> [example_contact 1]]\<rparr>) (''a'', ''b'')
       \<noteq> res (example_cdata LIMITED) (''a'', ''b'')"
  by (simp add: processResult_def example_cdata_def)

text \<open>
  C4, amended. With a policy other than FIRST, ALL and CLOSEST, a contact for a pair key
  that already has stored results records nothing: the result map and the flag are
  unchanged and no pointer is returned. A contact for a pair key without stored results is
  stored as that pair's only result, the flag staying as it was.
\<close>

theorem other_policy_noop_when_found:
  assumes "type cdata \<noteq> FIRST" and "type cdata \<noteq> ALL'" and "type cdata \<noteq> CLOSEST"
  shows "(res cdata key = Some v \<longrightarrow> processResult cdata c key True = Inr (cdata, None))
       \<and> (res cdata key = None \<longrightarrow>
            processResult cdata c key False
              = Inr (cdata\<lparr>res := (res cdata)(key \<mapsto> [c])\<rparr>, Some 0))"
proof -
  have "type cdata = LIMITED" using assms by (cases "type cdata") simp_all
  then show ?thesis
    using processResult_other_found [of cdata key v c] processResult_not_found [OF assms(1), of key c]
    by simp
qed

theorem other_policy_noop_when_found_witness:
  "processResult ((example_cdata LIMITED)\<lparr>res := [(''a'', ''b'') \<mapsto> [example_contact 1]]\<rparr>)
     (example_contact 0) (''a'', ''b'') True
   = Inr ((example_cdata LIMITED)\<lparr>res := [(''a'', ''b'') \<mapsto> [example_contact 1]]\<rparr>, None)"
proof -
  let ?cd = "(example_cdata LIMITED)\<lparr>res := [(''a'', ''b'') \<mapsto> [example_contact 1]]\<rparr>"
  have h1: "type ?cd \<noteq> FIRST" and h2: "type ?cd \<noteq> ALL'" and h3: "type ?cd \<noteq> CLOSEST"
    by (simp_all add: example_cdata_def)
  have r: "res ?cd (''a'', ''b'') = Some [example_contact 1]"
    by simp
  from other_policy_noop_when_found [OF h1 h2 h3, of "(''a'', ''b'')" "[example_contact 1]" "example_contact 0"] r
  show ?thesis by blast
qed

section \<open>The allowed-contact predicate\<close>

text \<open>
  C5. The predicate is not symmetric. With two attached bodies \<open>A\<close> and \<open>B\<close>, where \<open>A\<close>
  is one of the touch links of \<open>B\<close> and \<open>B\<close> is neither a touch link nor the parent of
  \<open>A\<close>, contact between \<open>B\<close> and \<open>A\<close> is allowed and contact between \<open>A\<close> and \<open>B\<close>
  is not: when both names are attached bodies, \<open>defaultIsContactAllowedFn\<close> consults the
  first body only.
\<close>

theorem isAllowed_not_symmetric:
  "isContactAllowed ''A'' ''B''
      (Some (defaultIsContactAllowedFn (example_env\<lparr>attached_bodies := example_attached\<rparr>))) = False
   \<and> isContactAllowed ''B'' ''A''
      (Some (defaultIsContactAllowedFn (example_env\<lparr>attached_bodies := example_attached\<rparr>))) = True"
  by (simp add: isContactAllowed_def defaultIsContactAllowedFn_def example_env_def
      example_attached_def isCollisionAllowed_def)

section \<open>Convex hull\<close>

text \<open>
  On the mesh of a tetrahedron the walk over the faces emits four triangles; the output
  containers lose what they held.
\<close>

lemma createConvexHull_tetrahedron:
  "createConvexHull example_tetrahedron [] [(9, 9, 9)] [7]
     [(0, 0, 0), (1, 0, 0), (0, 1, 0), (0, 0, 1)] (- 1) (- 1)
   = Some (Inr ([(0, 0, 0), (1, 0, 0), (0, 1, 0), (0, 0, 1)],
                [3, 0, 1, 2, 3, 0, 3, 1, 3, 1, 3, 2, 3, 0, 2, 3], 4, []))"
  by (simp add: createConvexHull_def example_tetrahedron_def hull_face_def edge_at_def
      trace_face.simps Let_def)

text \<open>
  C9. When the backend reports a negative value, \<open>createConvexHull\<close> returns \<open>-1\<close>, both
  output containers are empty whatever they held before, and the failure is written to
  the log; the call returns normally.
\<close>

theorem createConvexHull_failure:
  assumes "val (compute input shrink shrinkClamp) < 0"
  shows "createConvexHull compute rlog vertices0 faces0 input shrink shrinkClamp
           = Some (Inr ([], [], - 1, rlog @ [(ERROR, ''Failed to create convex hull'')]))"
  using assms by (simp add: createConvexHull_def)

theorem createConvexHull_failure_witness:
  "createConvexHull example_hull_failure [] [(0, 0, 0)] [3, 0, 1, 2] [(0, 0, 0), (1, 0, 0)] (- 1) (- 1)
     = Some (Inr ([], [], - 1, [(ERROR, ''Failed to create convex hull'')]))"
proof -
  have h: "val (example_hull_failure [(0, 0, 0), (1, 0, 0)] (- 1) (- 1)) < 0"
    by (simp add: example_hull_failure_def)
  from createConvexHull_failure [of example_hull_failure "[(0, 0, 0), (1, 0, 0)]" "- 1" "- 1"
      "[]" "[(0, 0, 0)]" "[3, 0, 1, 2]", OF h]
  show ?thesis by simp
qed

section \<open>Transforms\<close>

lemma iso_mul_Identity [simp]: "iso_mul Identity x = x" "iso_mul x Identity = x"
  by (cases x; cases "linear x"; cases "translation x"; auto simp: iso_mul_def Identity_def)+

lemma helper_keeps:
  "calculateTransformsHelper tfs q el f = Inr T \<Longrightarrow>
     (\<forall>n \<in> set (segment_names el). T n \<noteq> None) \<and> (\<forall>n. tfs n \<noteq> None \<longrightarrow> T n \<noteq> None)"
  "calculateTransformsChildren tfs q cs f = Inr T \<Longrightarrow>
     (\<forall>c \<in> set cs. \<forall>n \<in> set (segment_names c). T n \<noteq> None) \<and> (\<forall>n. tfs n \<noteq> None \<longrightarrow> T n \<noteq> None)"
proof (induction tfs q el f and tfs q cs f arbitrary: T and T
    rule: calculateTransformsHelper_calculateTransformsChildren.induct)
  case (1 tfs q_in seg qnr cs parent_frame)
  let ?g = "iso_mul parent_frame (pose seg (q_in ! qnr))"
  from "1.prems" have lt: "qnr < length q_in"
    by (simp split: if_splits)
  from "1.prems" lt
  have ch: "calculateTransformsChildren (tfs(getName seg \<mapsto> ?g)) q_in cs ?g = Inr T"
    by (simp add: Let_def)
  from "1.IH" [OF lt refl refl ch]
  have a: "\<forall>c \<in> set cs. \<forall>n \<in> set (segment_names c). T n \<noteq> None"
    and b: "\<forall>n. (tfs(getName seg \<mapsto> ?g)) n \<noteq> None \<longrightarrow> T n \<noteq> None"
    by blast+
  from b have "T (getName seg) \<noteq> None" by simp
  moreover from b have "\<forall>n. tfs n \<noteq> None \<longrightarrow> T n \<noteq> None" by simp
  ultimately show ?case using a by auto
next
  case (2 tfs q_in global_frame)
  then show ?case by simp
next
  case (3 tfs q_in child cs global_frame)
  from "3.prems" obtain T1 where T1: "calculateTransformsHelper tfs q_in child global_frame = Inr T1"
    and rest: "calculateTransformsChildren T1 q_in cs global_frame = Inr T"
    by (auto split: sum.splits)
  from "3.IH"(1) [OF T1]
  have a1: "\<forall>n \<in> set (segment_names child). T1 n \<noteq> None"
    and b1: "\<forall>n. tfs n \<noteq> None \<longrightarrow> T1 n \<noteq> None"
    by blast+
  from "3.IH"(2) [OF T1 rest]
  have a2: "\<forall>c \<in> set cs. \<forall>n \<in> set (segment_names c). T n \<noteq> None"
    and b2: "\<forall>n. T1 n \<noteq> None \<longrightarrow> T n \<noteq> None"
    by blast+
  from a1 b1 a2 b2 show ?case by auto
qed

lemma helper_total:
  "qnrs_in_range (length q) el \<Longrightarrow> \<exists>T. calculateTransformsHelper tfs q el f = Inr T"
  "list_all (qnrs_in_range (length q)) cs \<Longrightarrow> \<exists>T. calculateTransformsChildren tfs q cs f = Inr T"
proof (induction tfs q el f and tfs q cs f
    rule: calculateTransformsHelper_calculateTransformsChildren.induct)
  case (1 tfs q_in seg qnr cs parent_frame)
  from "1.prems" have lt: "qnr < length q_in" and cs: "list_all (qnrs_in_range (length q_in)) cs"
    by simp_all
  let ?g = "iso_mul parent_frame (pose seg (q_in ! qnr))"
  from "1.IH" [OF lt refl refl cs]
  obtain T where "calculateTransformsChildren (tfs(getName seg \<mapsto> ?g)) q_in cs ?g = Inr T"
    by blast
  with lt show ?case
    by (simp add: Let_def)
next
  case (2 tfs q_in global_frame)
  then show ?case by simp
next
  case (3 tfs q_in child cs global_frame)
  from "3.prems" have a: "qnrs_in_range (length q_in) child"
    and b: "list_all (qnrs_in_range (length q_in)) cs"
    by simp_all
  from "3.IH"(1) [OF a] obtain T1 where T1: "calculateTransformsHelper tfs q_in child global_frame = Inr T1"
    by blast
  from "3.IH"(2) [OF T1 b] show ?case using T1 by simp
qed

lemma attached_untouched:
  "calculateTransforms_attached bodies T0 = Inr T \<Longrightarrow> k \<notin> fst ` set bodies \<Longrightarrow> T k = T0 k"
  by (induction bodies arbitrary: T0) (auto split: option.splits)

lemma attached_overlay:
  "calculateTransforms_attached bodies T0 = Inr T \<Longrightarrow> distinct (map fst bodies) \<Longrightarrow>
   (n, info) \<in> set bodies \<Longrightarrow> parent_link_name info \<notin> fst ` set bodies \<Longrightarrow>
   \<exists>p. T0 (parent_link_name info) = Some p \<and> T (parent_link_name info) = Some p
        \<and> T n = Some (iso_mul p (transform info))"
proof (induction bodies arbitrary: T0)
  case Nil
  then show ?case by simp
next
  case (Cons b rest)
  from Cons.prems(1) obtain p where p: "T0 (parent_link_name (snd b)) = Some p"
    and rest: "calculateTransforms_attached rest (T0(fst b \<mapsto> iso_mul p (transform (snd b)))) = Inr T"
    by (auto split: option.splits)
  have par: "T (parent_link_name info) = T0 (parent_link_name info)"
    by (rule attached_untouched [OF Cons.prems(1) Cons.prems(4)])
  show ?case
  proof (cases "b = (n, info)")
    case True
    have "n \<notin> fst ` set rest" using Cons.prems(2) True by force
    from attached_untouched [OF rest this] have "T n = Some (iso_mul p (transform info))"
      using True by simp
    with p par True show ?thesis by simp
  next
    case False
    with Cons.prems(3) have mem: "(n, info) \<in> set rest" by simp
    have d: "distinct (map fst rest)" using Cons.prems(2) by simp
    have np: "parent_link_name info \<notin> fst ` set rest" using Cons.prems(4) by simp
    have ne: "fst b \<noteq> parent_link_name info" using Cons.prems(4) by auto
    from Cons.IH [OF rest d mem np] ne par show ?thesis by simp
  qed
qed

lemma attached_total:
  "parents_ok bodies known \<Longrightarrow> \<forall>k \<in> set known. T0 k \<noteq> None \<Longrightarrow>
   \<exists>T. calculateTransforms_attached bodies T0 = Inr T"
proof (induction bodies arbitrary: T0 known)
  case Nil
  then show ?case by simp
next
  case (Cons b rest)
  from Cons.prems obtain p where p: "T0 (parent_link_name (snd b)) = Some p" by auto
  have "\<forall>k \<in> set (fst b # known). (T0(fst b \<mapsto> iso_mul p (transform (snd b)))) k \<noteq> None"
    using Cons.prems(2) by simp
  moreover have "parents_ok rest (fst b # known)"
    using Cons.prems(1) by simp
  ultimately obtain T
    where "calculateTransforms_attached rest (T0(fst b \<mapsto> iso_mul p (transform (snd b)))) = Inr T"
    using Cons.IH by blast
  with p show ?case by simp
qed

lemma calculateTransforms_total:
  assumes "qnrs_in_range (length q) el" and "parents_ok (attached_bodies env) (segment_names el)"
  shows "\<exists>T. calculateTransforms env tfs q (Some el) f = Inr T"
proof -
  from helper_total(1) [OF assms(1)] obtain T1 where T1: "calculateTransformsHelper tfs q el f = Inr T1"
    by blast
  from helper_keeps(1) [OF T1] have "\<forall>k \<in> set (segment_names el). T1 k \<noteq> None" by blast
  from attached_total [OF assms(2) this] T1 show ?thesis
    by (simp add: calculateTransforms_def)
qed

lemma attached_sets_key:
  "calculateTransforms_attached bodies T0 = Inr T \<Longrightarrow>
   (\<forall>k. T0 k \<noteq> None \<longrightarrow> T k \<noteq> None) \<and> (\<forall>k \<in> fst ` set bodies. T k \<noteq> None)"
proof (induction bodies arbitrary: T0)
  case Nil
  then show ?case by simp
next
  case (Cons b rest)
  from Cons.prems obtain p where p: "T0 (parent_link_name (snd b)) = Some p"
    and rest: "calculateTransforms_attached rest (T0(fst b \<mapsto> iso_mul p (transform (snd b)))) = Inr T"
    by (auto split: option.splits)
  from Cons.IH [OF rest]
  have a: "\<forall>k. (T0(fst b \<mapsto> iso_mul p (transform (snd b)))) k \<noteq> None \<longrightarrow> T k \<noteq> None"
    and b: "\<forall>k \<in> fst ` set rest. T k \<noteq> None"
    by blast+
  from a have "T (fst b) \<noteq> None" by simp
  moreover from a have "\<forall>k. T0 k \<noteq> None \<longrightarrow> T k \<noteq> None" by simp
  ultimately show ?case using b by auto
qed

lemma parents_ok_append:
  "parents_ok (bodies @ [b]) known =
     (parents_ok bodies known \<and> parent_link_name (snd b) \<in> set known \<union> fst ` set bodies)"
  by (induction bodies arbitrary: known) auto

text \<open>
  A body attached to a segment of the tree. Let no attached body carry the name of a
  segment (\<open>attachBody\<close> refuses the name of an existing link). When \<open>calculateTransforms\<close>
  has finished, for any joint array, the entry of an attached body whose parent link is a
  segment of the tree is the parent's transform composed with the attachment's relative
  transform; the parent's transform is the one the tree pass computed, which the pass over
  the attached bodies leaves as it is.
\<close>

lemma attached_transform_tree_parent:
  assumes "calculateTransforms env tfs q_in (Some el) parent_frame = Inr T"
    and "distinct (map fst (attached_bodies env))"
    and "(n, info) \<in> set (attached_bodies env)"
    and "parent_link_name info \<in> set (segment_names el)"
    and "set (segment_names el) \<inter> fst ` set (attached_bodies env) = {}"
  shows "\<exists>T_tree p. calculateTransformsHelper tfs q_in el parent_frame = Inr T_tree
           \<and> T_tree (parent_link_name info) = Some p
           \<and> T (parent_link_name info) = Some p
           \<and> T n = Some (iso_mul p (transform info))"
proof -
  from assms(1) obtain T_tree where tree: "calculateTransformsHelper tfs q_in el parent_frame = Inr T_tree"
    and att: "calculateTransforms_attached (attached_bodies env) T_tree = Inr T"
    by (auto simp: calculateTransforms_def split: sum.splits)
  from assms(4,5) have "parent_link_name info \<notin> fst ` set (attached_bodies env)"
    by blast
  from attached_overlay [OF att assms(2) assms(3) this] tree show ?thesis by blast
qed

lemma attached_transform_tree_parent_example:
  "\<exists>T p. calculateTransforms (example_env\<lparr>attached_bodies := [(''box'', example_box)]\<rparr>)
            Map.empty [2] (Some example_tree) Identity = Inr T
        \<and> T ''link1'' = Some p
        \<and> translation p = (2, 0, 0)
        \<and> T ''box'' = Some (iso_mul p (transform example_box))"
proof -
  let ?env = "example_env\<lparr>attached_bodies := [(''box'', example_box)]\<rparr>"
  have ab: "attached_bodies ?env = [(''box'', example_box)]"
    by simp
  have h0: "\<exists>T. calculateTransforms ?env Map.empty [2] (Some example_tree) Identity = Inr T"
    by (rule calculateTransforms_total) (simp_all add: example_tree_def example_box_def)
  then obtain T where h1: "calculateTransforms ?env Map.empty [2] (Some example_tree) Identity = Inr T"
    by blast
  have h2: "distinct (map fst (attached_bodies ?env))"
    by simp
  have h3: "(''box'', example_box) \<in> set (attached_bodies ?env)"
    by simp
  have h4: "parent_link_name example_box \<in> set (segment_names example_tree)"
    by (simp add: example_box_def example_tree_def)
  have h5: "set (segment_names example_tree) \<inter> fst ` set (attached_bodies ?env) = {}"
    by (simp add: example_tree_def)
  from attached_transform_tree_parent [OF h1 h2 h3 h4 h5]
  obtain T_tree p where
    tree: "calculateTransformsHelper Map.empty [2] example_tree Identity = Inr T_tree"
    and p: "T_tree (parent_link_name example_box) = Some p"
    and Tp: "T (parent_link_name example_box) = Some p"
    and Tn: "T ''box'' = Some (iso_mul p (transform example_box))"
    by blast
  have "calculateTransformsHelper Map.empty [2] example_tree Identity
          = Inr [''base'' \<mapsto> Identity,
                 ''link1'' \<mapsto> \<lparr>linear = ((1, 0, 0), (0, 1, 0), (0, 0, 1)), translation = (2, 0, 0)\<rparr>]"
    by (simp add: example_tree_def iso_mul_def Identity_def)
  with tree p have "translation p = (2, 0, 0)"
    by (auto simp: example_box_def)
  with h1 Tp Tn show ?thesis
    by (auto simp: example_box_def)
qed

text \<open>
  C7. The entry of an attached body is not always its parent's final transform composed
  with the offset: not for a body attached to another attached body, which \<open>attachBody\<close>
  accepts (it looks the name up in the catalog and among the links, and does not look at
  the parent). The loop over \<open>attached_bodies_\<close> in \<open>calculateTransforms\<close> reads
  \<open>transforms[parent]\<close> as it stands when the body is visited; a parent visited later still
  has the transform of the previous state. Attach \<open>gripper\<close> to \<open>link1\<close> and \<open>tool\<close> to
  \<open>gripper\<close>, each one unit along x from its parent, in a container that visits the
  newest entry first, then move \<open>j1\<close> from 0 to 2 with \<open>setState\<close>. In the live state
  \<open>link1\<close> is at 2 and \<open>gripper\<close> at 3, and \<open>tool\<close> is at 2: the gripper's transform before
  the move, composed with the offset. The gripper's transform composed with the offset
  is at 4.
\<close>

theorem chained_attachment_stale_transform:
  "example_chain_run =
     Some (Some \<lparr>linear = ((1, 0, 0), (0, 1, 0), (0, 0, 1)), translation = (3, 0, 0)\<rparr>,
           Some \<lparr>linear = ((1, 0, 0), (0, 1, 0), (0, 0, 1)), translation = (2, 0, 0)\<rparr>,
           [''tool'', ''gripper''])
   \<and> parent_link_name example_tool = ''gripper''
   \<and> iso_mul \<lparr>linear = ((1, 0, 0), (0, 1, 0), (0, 0, 1)), translation = (3, 0, 0)\<rparr>
        (transform example_tool)
      = \<lparr>linear = ((1, 0, 0), (0, 1, 0), (0, 0, 1)), translation = (4, 0, 0)\<rparr>"
proof -
  have "example_chain_run =
     Some (Some \<lparr>linear = ((1, 0, 0), (0, 1, 0), (0, 0, 1)), translation = (3, 0, 0)\<rparr>,
           Some \<lparr>linear = ((1, 0, 0), (0, 1, 0), (0, 0, 1)), translation = (2, 0, 0)\<rparr>,
           [''tool'', ''gripper''])"
    by (simp add: example_chain_run_def attachBody_def setState_def
        setState_transforms_def setJointValuesHelper_def upd_state_def
        ros_write_def calculateTransforms_def example_env_chain_def example_env_def
        example_manager_chain_def example_manager_def example_object_def
        example_state_def example_tree_def example_gripper_def example_tool_def
        attached_insert_def enableCollisionObject_def setCollisionObjectsTransform1_def
        setCollisionObjectsTransform_def setActiveCollisionObjects_def iso_mul_def
        Identity_def Let_def find_eq_None_iff)
  moreover have "parent_link_name example_tool = ''gripper''"
    by (simp add: example_tool_def)
  moreover have
    "iso_mul \<lparr>linear = ((1, 0, 0), (0, 1, 0), (0, 0, 1)), translation = (3, 0, 0)\<rparr>
        (transform example_tool)
      = \<lparr>linear = ((1, 0, 0), (0, 1, 0), (0, 0, 1)), translation = (4, 0, 0)\<rparr>"
    by (simp add: iso_mul_def example_tool_def)
  ultimately show ?thesis by simp
qed

section \<open>Snapshots: getState\<close>

lemma length_overlay_array [simp]: "length (overlay_array jq q ns vs) = length q"
  by (induction jq q ns vs rule: overlay_array.induct) (auto split: option.splits)







section \<open>setState\<close>

text \<open>
  The overload of \<open>setState\<close> that takes two vectors rejects a joint name outside the tree:
  the live state's joints are unchanged at that name.
\<close>

lemma setState_vec_joints_unknown:
  "setState_vec_joints env ns vs = Inr env' \<Longrightarrow> joint_to_qnr env n = None \<Longrightarrow>
   joints (heap env' (current_state env')) n = joints (heap env (current_state env)) n
   \<and> joint_to_qnr env' = joint_to_qnr env \<and> current_state env' = current_state env"
proof (induction ns arbitrary: vs env)
  case Nil
  then show ?case by simp
next
  case (Cons joint_name ns)
  from Cons.prems(1) obtain joint_value vs' where vs: "vs = joint_value # vs'"
    by (cases vs) auto
  show ?case
  proof (cases "joint_to_qnr env joint_name")
    case None
    let ?env1 = "(ros_write ERROR (''Tried to set joint name '' @ joint_name @ '' which does not exist!'') env)
                   \<lparr>kdl_jnt_array := kdl_jnt_array env\<rparr>"
    from Cons.prems(1) None vs have r: "setState_vec_joints ?env1 ns vs' = Inr env'"
      by (simp add: setJointValuesHelper_def)
    have "joint_to_qnr ?env1 n = None"
      using Cons.prems(2) by (simp add: ros_write_def)
    from Cons.IH [OF r this] show ?thesis
      by (auto simp: ros_write_def)
  next
    case (Some i)
    with Cons.prems(2) have ne: "joint_name \<noteq> n" by auto
    let ?env3 = "upd_state (current_state env)
                   (\<lambda>s. s\<lparr>joints := (joints s)(joint_name \<mapsto> joint_value)\<rparr>)
                   (env\<lparr>kdl_jnt_array := (kdl_jnt_array env)[i := joint_value]\<rparr>)"
    from Cons.prems(1) Some vs have r: "setState_vec_joints ?env3 ns vs' = Inr env'"
      by (simp add: setJointValuesHelper_def split: if_splits)
    have "joint_to_qnr ?env3 n = None"
      using Cons.prems(2) by (simp add: upd_state_def)
    from Cons.IH [OF r this] ne show ?thesis
      by (auto simp: upd_state_def)
  qed
qed

lemma setState_vec_rejects_unknown:
  assumes "setState_vec env joint_names joint_values = Inr env'" and "joint_to_qnr env n = None"
  shows "joints (heap env' (current_state env')) n = joints (heap env (current_state env)) n"
proof -
  from assms(1) obtain env1 where a: "setState_vec_joints env joint_names joint_values = Inr env1"
    and b: "setState_transforms env1 = Inr env'"
    by (auto simp: setState_vec_def split: sum.splits)
  from b have "joints (heap env' (current_state env')) n = joints (heap env1 (current_state env1)) n"
    by (auto simp: setState_transforms_def Let_def upd_state_def split: sum.splits)
  with setState_vec_joints_unknown [OF a assms(2)] show ?thesis by auto
qed

text \<open>
  C6. The overload of \<open>setState\<close> that takes a map does not reject a joint name outside
  the tree: \<open>insert\<close> has entered the name with its value into the live state's joints
  before the loop reports it as unknown. Here \<open>bogus\<close> is not a joint of the tree and
  was not among the live joints; after the call it is, with the value given. The joint
  \<open>j1\<close> of the tree is set, and the call returns normally with the diagnostic logged.
\<close>

theorem setState_records_unknown_joint:
  "\<exists>env'. setState example_env [(''j1'', 2), (''bogus'', 5)] = Inr env'
     \<and> joint_to_qnr example_env ''bogus'' = None
     \<and> joints (heap example_env (current_state example_env)) ''bogus'' = None
     \<and> joints (heap env' (current_state env')) ''bogus'' = Some 5
     \<and> joints (heap env' (current_state env')) ''j1'' = Some 2
     \<and> kdl_jnt_array env' = [2]
     \<and> ros_log env' = [(ERROR, ''Tried to set joint name bogus which does not exist!'')]"
  by (simp add: setState_def setState_transforms_def setJointValuesHelper_def upd_state_def
      ros_write_def calculateTransforms_def example_env_def example_state_def example_tree_def
      Let_def)

section \<open>Attaching and detaching a body\<close>

lemma attached_insert_new:
  "map_of m k = None \<Longrightarrow> attached_insert pos m k v = take pos m @ (k, v) # drop pos m"
  by (simp add: attached_insert_def)

lemma attached_erase_insert:
  assumes "map_of m k = None"
  shows "attached_erase (attached_insert pos m k v) k = m"
proof -
  let ?P = "\<lambda>kv. fst kv \<noteq> k"
  from assms have "k \<notin> fst ` set m" by (simp add: map_of_eq_None_iff)
  then have all: "filter ?P m = m" by (auto intro!: filter_True)
  have "filter ?P (take pos m @ (k, v) # drop pos m)
          = filter ?P (take pos m) @ filter ?P (drop pos m)"
    by simp
  also have "\<dots> = filter ?P (take pos m @ drop pos m)"
    by (simp only: filter_append)
  also have "\<dots> = m"
    using all by simp
  finally show ?thesis
    unfolding attached_insert_new [OF assms] attached_erase_def .
qed

lemma map_of_attached_insert:
  assumes "map_of m k = None"
  shows "map_of (attached_insert pos m k v) k = Some v"
proof -
  from assms have "k \<notin> fst ` set m" by (simp add: map_of_eq_None_iff)
  moreover have "set (take pos m) \<subseteq> set m" by (rule set_take_subset)
  ultimately have "k \<notin> fst ` set (take pos m)" by blast
  then have "map_of (take pos m) k = None" by (simp add: map_of_eq_None_iff)
  then show ?thesis
    unfolding attached_insert_new [OF assms] by (simp add: map_add_def)
qed

lemma map_of_attached_insert_other:
  assumes "n \<noteq> k"
  shows "map_of (attached_insert pos m k v) n = map_of m n"
proof (cases "map_of m k")
  case (Some x)
  then show ?thesis by (simp add: attached_insert_def)
next
  case None
  have "map_of (take pos m @ (k, v) # drop pos m) n
          = (map_of (drop pos m) ++ map_of (take pos m)) n"
    using assms by (simp add: map_add_def split: option.splits)
  also have "\<dots> = map_of (take pos m @ drop pos m) n"
    by (simp only: map_of_append)
  also have "\<dots> = map_of m n"
    by simp
  finally show ?thesis
    unfolding attached_insert_new [OF None] .
qed

lemma parents_ok_mono:
  "parents_ok bodies known \<Longrightarrow> set known \<subseteq> set known' \<Longrightarrow> parents_ok bodies known'"
proof (induction bodies arbitrary: known known')
  case Nil
  then show ?case by simp
next
  case (Cons b rest)
  from Cons.prems have "parent_link_name (snd b) \<in> set known'" by auto
  moreover have "parents_ok rest (fst b # known')"
    by (rule Cons.IH [of "fst b # known"]) (use Cons.prems in auto)
  ultimately show ?case by simp
qed

lemma parents_ok_insert:
  "parents_ok bodies known \<Longrightarrow> parent_link_name (snd b) \<in> set known \<Longrightarrow>
   parents_ok (take pos bodies @ b # drop pos bodies) known"
proof (induction bodies arbitrary: known pos)
  case Nil
  then show ?case by simp
next
  case (Cons x rest)
  show ?case
  proof (cases pos)
    case 0
    have "parents_ok (x # rest) (fst b # known)"
      by (rule parents_ok_mono [OF Cons.prems(1)]) auto
    with Cons.prems(2) show ?thesis unfolding 0 by simp
  next
    case (Suc i)
    from Cons.prems(1) have px: "parent_link_name (snd x) \<in> set known"
      and pr: "parents_ok rest (fst x # known)"
      by simp_all
    have "parents_ok (take i rest @ b # drop i rest) (fst x # known)"
      by (rule Cons.IH [OF pr]) (use Cons.prems(2) in simp)
    with px show ?thesis unfolding Suc by simp
  qed
qed

lemma enabled_after_round_trip:
  assumes "\<forall>co. objects m k = Some co \<longrightarrow> \<not> enabled co"
  shows "map_option enabled
           (objects (disableCollisionObject
                       (setActiveCollisionObjects
                          (setActiveCollisionObjects
                             (setCollisionObjectsTransform1 (enableCollisionObject m k) k tf) a1) a2) k) n)
         = map_option enabled (objects m n)"
  using assms
  by (cases "objects m k")
     (auto simp: disableCollisionObject_def setActiveCollisionObjects_def
        setCollisionObjectsTransform1_def enableCollisionObject_def)

lemma active_after_round_trip:
  "active (disableCollisionObject (setActiveCollisionObjects m a) k) = a"
  by (cases "objects m k")
     (auto simp: disableCollisionObject_def setActiveCollisionObjects_def)

lemma attachBody_main_path:
  assumes "attachBody env info = Inr env1"
    and "attachable_objects env (object_name info) \<noteq> None"
    and "map_of (attached_bodies env) (object_name info) = None"
    and "object_name info \<notin> set (link_names env)"
  shows "\<exists>tf. link_names env1 = link_names env @ [object_name info]
      \<and> active_link_names env1 =
           (if parent_link_name info \<in> set (active_link_names env)
            then active_link_names env @ [object_name info] else active_link_names env)
      \<and> attached_bodies env1 =
           attached_insert (attached_place env (attached_bodies env) (object_name info))
             (attached_bodies env) (object_name info) info
      \<and> discrete_manager env1 =
           setActiveCollisionObjects
             (setCollisionObjectsTransform1
                (enableCollisionObject (discrete_manager env) (object_name info)) (object_name info) tf)
             (active_link_names env1)
      \<and> continuous_manager env1 =
           setActiveCollisionObjects
             (setCollisionObjectsTransform1
                (enableCollisionObject (continuous_manager env) (object_name info)) (object_name info) tf)
             (active_link_names env1)"
  using assms
  by (auto simp: attachBody_def Let_def find_eq_None_iff upd_state_def
      split: sum.splits option.splits if_splits)

lemma attachBody_link_clash:
  assumes "attachable_objects env (object_name info) \<noteq> None"
    and "map_of (attached_bodies env) (object_name info) = None"
    and "object_name info \<in> set (link_names env)"
  shows "attachBody env info =
           Inr (ros_write DEBUG (''Tried to attached object '' @ object_name info
                  @ '' with the same name as an existing link!'') env)"
proof -
  from assms(1) obtain ao where "attachable_objects env (object_name info) = Some ao"
    by blast
  with assms(2,3) show ?thesis
    by (simp add: attachBody_def Let_def find_eq_None_iff)
qed

lemma attachBody_returns:
  assumes "attachable_objects env (object_name info) \<noteq> None"
    and "map_of (attached_bodies env) (object_name info) = None"
    and "qnrs_in_range (length (kdl_jnt_array env)) (kdl_tree env)"
    and "parents_ok (attached_bodies env) (segment_names (kdl_tree env))"
    and "parent_link_name info \<in> set (segment_names (kdl_tree env))"
  shows "\<exists>env1. attachBody env info = Inr env1"
proof (cases "object_name info \<in> set (link_names env)")
  case True
  from attachBody_link_clash [OF assms(1,2) True] show ?thesis by blast
next
  case False
  let ?n = "object_name info"
  let ?pos = "attached_place env (attached_bodies env) ?n"
  let ?ab = "take ?pos (attached_bodies env) @ (?n, info) # drop ?pos (attached_bodies env)"
  from assms(1) obtain ao where ao: "attachable_objects env ?n = Some ao" by blast
  have pk: "parents_ok ?ab (segment_names (kdl_tree env))"
    by (rule parents_ok_insert [OF assms(4)]) (use assms(5) in simp)
  have "\<exists>T. calculateTransforms (env\<lparr>attached_bodies := ?ab\<rparr>)
               (transforms (heap env (current_state env))) (kdl_jnt_array env)
               (Some (kdl_tree env)) Identity = Inr T"
    by (rule calculateTransforms_total) (use assms(3) pk in simp_all)
  then obtain T where T: "calculateTransforms_attached ?ab
        (case calculateTransformsHelper (transforms (heap env (current_state env)))
                (kdl_jnt_array env) (kdl_tree env) Identity of Inr t \<Rightarrow> t) = Inr T"
    and H: "\<exists>t. calculateTransformsHelper (transforms (heap env (current_state env)))
                (kdl_jnt_array env) (kdl_tree env) Identity = Inr t"
    by (auto simp: calculateTransforms_def split: sum.splits)
  from attached_sets_key [OF T] have "T ?n \<noteq> None" by simp
  then obtain tf where tf: "T ?n = Some tf" by blast
  from H obtain t where t: "calculateTransformsHelper (transforms (heap env (current_state env)))
                (kdl_jnt_array env) (kdl_tree env) Identity = Inr t" by blast
  from T t have T': "calculateTransforms_attached ?ab t = Inr T" by simp
  show ?thesis
    using ao assms(2) False t T' tf
    by (simp add: attachBody_def Let_def find_eq_None_iff attached_insert_new
        calculateTransforms_def)
qed

lemma attach_detach_fields:
  assumes cat: "attachable_objects env (object_name info) \<noteq> None"
    and notatt: "map_of (attached_bodies env) (object_name info) = None"
    and nact: "object_name info \<in> set (active_link_names env)
                 \<longrightarrow> object_name info \<in> set (link_names env)"
    and dis_d: "\<forall>co. objects (discrete_manager env) (object_name info) = Some co \<longrightarrow> \<not> enabled co"
    and dis_c: "\<forall>co. objects (continuous_manager env) (object_name info) = Some co \<longrightarrow> \<not> enabled co"
    and att: "attachBody env info = Inr env1"
  shows "link_names (detachBody env1 (object_name info)) = link_names env
       \<and> active_link_names (detachBody env1 (object_name info)) = active_link_names env
       \<and> map_of (attached_bodies (detachBody env1 (object_name info))) = map_of (attached_bodies env)
       \<and> map_option enabled (objects (discrete_manager (detachBody env1 (object_name info))) n)
           = map_option enabled (objects (discrete_manager env) n)
       \<and> map_option enabled (objects (continuous_manager (detachBody env1 (object_name info))) n)
           = map_option enabled (objects (continuous_manager env) n)
       \<and> (object_name info \<notin> set (link_names env) \<longrightarrow>
            active (discrete_manager (detachBody env1 (object_name info))) = active_link_names env
            \<and> active (continuous_manager (detachBody env1 (object_name info))) = active_link_names env)
       \<and> (object_name info \<in> set (link_names env) \<longrightarrow>
            active (discrete_manager (detachBody env1 (object_name info))) = active (discrete_manager env)
            \<and> active (continuous_manager (detachBody env1 (object_name info)))
                = active (continuous_manager env))
       \<and> (active (discrete_manager env) = active_link_names env \<longrightarrow>
            active (discrete_manager (detachBody env1 (object_name info))) = active (discrete_manager env))
       \<and> (active (continuous_manager env) = active_link_names env \<longrightarrow>
            active (continuous_manager (detachBody env1 (object_name info)))
              = active (continuous_manager env))"
proof (cases "object_name info \<in> set (link_names env)")
  case True
  from attachBody_link_clash [OF cat notatt True] att
  have env1: "env1 = ros_write DEBUG (''Tried to attached object '' @ object_name info
                  @ '' with the same name as an existing link!'') env"
    by simp
  have "detachBody env1 (object_name info) = env1"
    using notatt unfolding env1 by (simp add: detachBody_def ros_write_def)
  then show ?thesis unfolding env1 using True by (simp add: ros_write_def)
next
  case False
  let ?n = "object_name info"
  from attachBody_main_path [OF att cat notatt False] obtain tf where
    ln: "link_names env1 = link_names env @ [?n]"
    and al: "active_link_names env1 =
           (if parent_link_name info \<in> set (active_link_names env)
            then active_link_names env @ [?n] else active_link_names env)"
    and ab: "attached_bodies env1 =
           attached_insert (attached_place env (attached_bodies env) ?n) (attached_bodies env) ?n info"
    and dm: "discrete_manager env1 =
           setActiveCollisionObjects
             (setCollisionObjectsTransform1 (enableCollisionObject (discrete_manager env) ?n) ?n tf)
             (active_link_names env1)"
    and cm: "continuous_manager env1 =
           setActiveCollisionObjects
             (setCollisionObjectsTransform1 (enableCollisionObject (continuous_manager env) ?n) ?n tf)
             (active_link_names env1)"
    by blast
  have nact': "?n \<notin> set (active_link_names env)"
    using False nact by blast
  have found: "map_of (attached_bodies env1) ?n \<noteq> None"
    unfolding ab using map_of_attached_insert [OF notatt] by simp
  have ln': "removeAll ?n (link_names env1) = link_names env"
    unfolding ln using False by simp
  have al': "removeAll ?n (active_link_names env1) = active_link_names env"
    unfolding al using nact' by simp
  have ab': "attached_erase (attached_bodies env1) ?n = attached_bodies env"
    unfolding ab by (rule attached_erase_insert [OF notatt])
  let ?env2 = "detachBody env1 ?n"
  have 1: "link_names ?env2 = link_names env"
    using found ln' by (simp add: detachBody_def Let_def upd_state_def)
  have 2: "active_link_names ?env2 = active_link_names env"
    using found al' by (simp add: detachBody_def Let_def upd_state_def)
  have 3: "attached_bodies ?env2 = attached_bodies env"
    using found ab' by (simp add: detachBody_def Let_def upd_state_def)
  have d2: "discrete_manager ?env2 =
              disableCollisionObject
                (setActiveCollisionObjects (discrete_manager env1) (active_link_names env)) ?n"
    using found al' by (simp add: detachBody_def Let_def upd_state_def)
  have c2: "continuous_manager ?env2 =
              disableCollisionObject
                (setActiveCollisionObjects (continuous_manager env1) (active_link_names env)) ?n"
    using found al' by (simp add: detachBody_def Let_def upd_state_def)
  have 4: "active (discrete_manager ?env2) = active_link_names env"
    unfolding d2 by (rule active_after_round_trip)
  have 5: "active (continuous_manager ?env2) = active_link_names env"
    unfolding c2 by (rule active_after_round_trip)
  have 6: "map_option enabled (objects (discrete_manager ?env2) n)
             = map_option enabled (objects (discrete_manager env) n)"
    unfolding d2 dm by (rule enabled_after_round_trip [OF dis_d])
  have 7: "map_option enabled (objects (continuous_manager ?env2) n)
             = map_option enabled (objects (continuous_manager env) n)"
    unfolding c2 cm by (rule enabled_after_round_trip [OF dis_c])
  from 1 2 3 4 5 6 7 False show ?thesis by simp
qed

text \<open>\<open>attachBody\<close> and \<open>detachBody\<close> keep the invariant.\<close>

lemma map_of_attached_erase:
  "map_of (attached_erase m k) n = (if n = k then None else map_of m n)"
  unfolding attached_erase_def by (induction m) auto

lemma objects_enable_other:
  "n \<noteq> k \<Longrightarrow> objects (enableCollisionObject m k) n = objects m n"
  by (simp add: enableCollisionObject_def split: option.splits)

lemma objects_disable:
  "objects (disableCollisionObject m k) n =
     (if n = k then map_option (\<lambda>co. co\<lparr>enabled := False\<rparr>) (objects m k) else objects m n)"
  by (simp add: disableCollisionObject_def split: option.splits)

lemma objects_setTransform1_other:
  "n \<noteq> k \<Longrightarrow> objects (setCollisionObjectsTransform1 m k p) n = objects m n"
  by (simp add: setCollisionObjectsTransform1_def split: option.splits)

lemma objects_setActive [simp]:
  "objects (setActiveCollisionObjects m a) = objects m"
  "active (setActiveCollisionObjects m a) = a"
  by (simp_all add: setActiveCollisionObjects_def)

lemma env_invariant_ros_write [simp]:
  "env_invariant (ros_write lvl msg env) = env_invariant env"
  by (simp add: env_invariant_def ros_write_def)

lemma attachBody_cases:
  assumes "attachBody env info = Inr env1"
  shows "(\<exists>lvl msg. env1 = ros_write lvl msg env)
       \<or> (attachable_objects env (object_name info) \<noteq> None
          \<and> map_of (attached_bodies env) (object_name info) = None
          \<and> object_name info \<notin> set (link_names env))"
  using assms
  by (auto simp: attachBody_def Let_def find_eq_None_iff split: if_splits)

lemma attachBody_preserves_invariant:
  assumes "env_invariant env" and "attachBody env info = Inr env1"
  shows "env_invariant env1"
proof -
  let ?n = "object_name info"
  from attachBody_cases [OF assms(2)] show ?thesis
  proof
    assume "\<exists>lvl msg. env1 = ros_write lvl msg env"
    with assms(1) show ?thesis by auto
  next
    assume main: "attachable_objects env ?n \<noteq> None
          \<and> map_of (attached_bodies env) ?n = None \<and> ?n \<notin> set (link_names env)"
    then have cat: "attachable_objects env ?n \<noteq> None"
      and notatt: "map_of (attached_bodies env) ?n = None"
      and new: "?n \<notin> set (link_names env)"
      by blast+
    from attachBody_main_path [OF assms(2) cat notatt new] obtain tf where
      ln: "link_names env1 = link_names env @ [?n]"
      and al: "active_link_names env1 =
           (if parent_link_name info \<in> set (active_link_names env)
            then active_link_names env @ [?n] else active_link_names env)"
      and ab: "attached_bodies env1 =
           attached_insert (attached_place env (attached_bodies env) ?n) (attached_bodies env) ?n info"
      and dm: "discrete_manager env1 =
           setActiveCollisionObjects
             (setCollisionObjectsTransform1 (enableCollisionObject (discrete_manager env) ?n) ?n tf)
             (active_link_names env1)"
      and cm: "continuous_manager env1 =
           setActiveCollisionObjects
             (setCollisionObjectsTransform1 (enableCollisionObject (continuous_manager env) ?n) ?n tf)
             (active_link_names env1)"
      by blast
    have ao: "attachable_objects env1 = attachable_objects env"
      using assms(2) cat notatt new
      by (auto simp: attachBody_def Let_def find_eq_None_iff upd_state_def
          split: sum.splits option.splits if_splits)
    have 1: "set (active_link_names env1) \<subseteq> set (link_names env1)"
      using assms(1) unfolding ln al by (auto simp: env_invariant_def)
    have 2: "active (discrete_manager env1) = active_link_names env1"
      unfolding dm by simp
    have 3: "active (continuous_manager env1) = active_link_names env1"
      unfolding cm by simp
    have 4: "\<not> enabled co"
      if h: "attachable_objects env1 n \<noteq> None" "map_of (attached_bodies env1) n = None"
        "objects (discrete_manager env1) n = Some co \<or> objects (continuous_manager env1) n = Some co"
      for n co
    proof -
      have "n \<noteq> ?n"
        using h(2) map_of_attached_insert [OF notatt] unfolding ab by auto
      then have "map_of (attached_bodies env) n = None"
        and "objects (discrete_manager env1) n = objects (discrete_manager env) n"
        and "objects (continuous_manager env1) n = objects (continuous_manager env) n"
        using h(2) unfolding ab dm cm
        by (simp_all add: map_of_attached_insert_other objects_enable_other objects_setTransform1_other)
      with h(1,3) assms(1) show ?thesis
        unfolding ao env_invariant_def by metis
    qed
    from 1 2 3 4 show ?thesis unfolding env_invariant_def by blast
  qed
qed

lemma detachBody_preserves_invariant:
  assumes "env_invariant env"
  shows "env_invariant (detachBody env n)"
proof (cases "map_of (attached_bodies env) n \<noteq> None")
  case False
  then show ?thesis using assms by (simp add: detachBody_def)
next
  case True
  let ?env2 = "detachBody env n"
  have ln: "link_names ?env2 = removeAll n (link_names env)"
    and al: "active_link_names ?env2 = removeAll n (active_link_names env)"
    and ab: "attached_bodies ?env2 = attached_erase (attached_bodies env) n"
    and ao: "attachable_objects ?env2 = attachable_objects env"
    and dm: "discrete_manager ?env2 =
               disableCollisionObject
                 (setActiveCollisionObjects (discrete_manager env) (removeAll n (active_link_names env))) n"
    and cm: "continuous_manager ?env2 =
               disableCollisionObject
                 (setActiveCollisionObjects (continuous_manager env) (removeAll n (active_link_names env))) n"
    using True by (simp_all add: detachBody_def Let_def upd_state_def)
  have 1: "set (active_link_names ?env2) \<subseteq> set (link_names ?env2)"
    using assms unfolding ln al by (auto simp: env_invariant_def)
  have 2: "active (discrete_manager ?env2) = active_link_names ?env2"
    unfolding dm al by (rule active_after_round_trip)
  have 3: "active (continuous_manager ?env2) = active_link_names ?env2"
    unfolding cm al by (rule active_after_round_trip)
  have 4: "\<not> enabled co"
    if h: "attachable_objects ?env2 m \<noteq> None" "map_of (attached_bodies ?env2) m = None"
      "objects (discrete_manager ?env2) m = Some co \<or> objects (continuous_manager ?env2) m = Some co"
    for m co
  proof (cases "m = n")
    case True
    with h(3) show ?thesis unfolding dm cm by (auto simp: objects_disable)
  next
    case False
    then have "map_of (attached_bodies env) m = None"
      and "objects (discrete_manager ?env2) m = objects (discrete_manager env) m"
      and "objects (continuous_manager ?env2) m = objects (continuous_manager env) m"
      using h(2) unfolding ab dm cm by (simp_all add: map_of_attached_erase objects_disable)
    with h(1,3) assms show ?thesis
      unfolding ao env_invariant_def by metis
  qed
  from 1 2 3 4 show ?thesis unfolding env_invariant_def by blast
qed

lemma example_env_invariant: "env_invariant example_env"
  by (auto simp: env_invariant_def example_env_def example_manager_def example_object_def
      split: if_splits)

text \<open>
  C8, as stated, fails where a manager does not hold the environment's list of active
  links, as after \<open>loadDiscreteContactManagerPlugin\<close> has installed a new manager (it never
  calls \<open>setActiveCollisionObjects\<close>; \<open>init\<close> does so after loading). Attaching \<open>box\<close> and
  detaching it again leaves the discrete manager's active list at \<open>[link1]\<close>, where it
  was empty before.
\<close>

theorem attach_detach_after_reload:
  "\<not> isl (attachBody example_env_reloaded example_box)
   \<and> active (discrete_manager
        (detachBody (projr (attachBody example_env_reloaded example_box)) ''box'')) = [''link1'']
   \<and> active (discrete_manager example_env_reloaded) = []"
proof -
  have n: "object_name example_box = ''box''"
    by (simp add: example_box_def)
  have cat: "attachable_objects example_env_reloaded (object_name example_box) \<noteq> None"
    by (simp add: example_env_reloaded_def example_env_def example_box_def)
  have notatt: "map_of (attached_bodies example_env_reloaded) (object_name example_box) = None"
    by (simp add: example_env_reloaded_def example_env_def)
  have nact: "object_name example_box \<in> set (active_link_names example_env_reloaded)
                \<longrightarrow> object_name example_box \<in> set (link_names example_env_reloaded)"
    by (simp add: example_env_reloaded_def example_env_def example_box_def)
  have dd: "\<forall>co. objects (discrete_manager example_env_reloaded) (object_name example_box) = Some co
              \<longrightarrow> \<not> enabled co"
    and dc: "\<forall>co. objects (continuous_manager example_env_reloaded) (object_name example_box) = Some co
              \<longrightarrow> \<not> enabled co"
    by (simp_all add: example_env_reloaded_def example_env_def example_manager_def example_box_def
        example_object_def)
  have "\<exists>env1. attachBody example_env_reloaded example_box = Inr env1"
    by (rule attachBody_returns [OF cat notatt])
       (simp_all add: example_env_reloaded_def example_env_def example_tree_def example_box_def)
  then obtain env1 where att: "attachBody example_env_reloaded example_box = Inr env1"
    by blast
  have new: "object_name example_box \<notin> set (link_names example_env_reloaded)"
    by (simp add: example_env_reloaded_def example_env_def example_box_def)
  from attach_detach_fields [OF cat notatt nact dd dc att, of "''box''"] new
  have "active (discrete_manager (detachBody env1 (object_name example_box)))
          = active_link_names example_env_reloaded"
    by blast
  then have "active (discrete_manager (detachBody env1 ''box'')) = [''link1'']"
    unfolding n by (simp add: example_env_reloaded_def example_env_def)
  moreover have "active (discrete_manager example_env_reloaded) = []"
    by (simp add: example_env_reloaded_def)
  ultimately show ?thesis using att by simp
qed

text \<open>
  C8, amended. Let the object be in the catalog and not attached: not in
  \<open>attached_bodies_\<close>, not among the active links unless it is a link, and disabled in
  each manager that registers it. Then \<open>attachBody\<close> followed by \<open>detachBody\<close> of the same
  name restores the link names, the active link names, the entries of
  \<open>attached_bodies_\<close> and the enabled flag of every object registered with a manager. Each manager's active list is
  afterwards the environment's list of active links, as it was before the attach (or
  untouched, when the name is that of a link and \<open>attachBody\<close> refuses it): it is restored
  whenever the manager held the environment's list before the attach.
\<close>

theorem attach_detach_round_trip:
  assumes cat: "attachable_objects env (object_name info) \<noteq> None"
    and notatt: "map_of (attached_bodies env) (object_name info) = None"
    and nact: "object_name info \<in> set (active_link_names env)
                 \<longrightarrow> object_name info \<in> set (link_names env)"
    and dis_d: "\<forall>co. objects (discrete_manager env) (object_name info) = Some co \<longrightarrow> \<not> enabled co"
    and dis_c: "\<forall>co. objects (continuous_manager env) (object_name info) = Some co \<longrightarrow> \<not> enabled co"
    and att: "attachBody env info = Inr env1"
  shows "link_names (detachBody env1 (object_name info)) = link_names env
       \<and> active_link_names (detachBody env1 (object_name info)) = active_link_names env
       \<and> map_of (attached_bodies (detachBody env1 (object_name info))) = map_of (attached_bodies env)
       \<and> map_option enabled (objects (discrete_manager (detachBody env1 (object_name info))) n)
           = map_option enabled (objects (discrete_manager env) n)
       \<and> map_option enabled (objects (continuous_manager (detachBody env1 (object_name info))) n)
           = map_option enabled (objects (continuous_manager env) n)
       \<and> (object_name info \<notin> set (link_names env) \<longrightarrow>
            active (discrete_manager (detachBody env1 (object_name info))) = active_link_names env
            \<and> active (continuous_manager (detachBody env1 (object_name info))) = active_link_names env)
       \<and> (object_name info \<in> set (link_names env) \<longrightarrow>
            active (discrete_manager (detachBody env1 (object_name info))) = active (discrete_manager env)
            \<and> active (continuous_manager (detachBody env1 (object_name info)))
                = active (continuous_manager env))
       \<and> (active (discrete_manager env) = active_link_names env \<longrightarrow>
            active (discrete_manager (detachBody env1 (object_name info))) = active (discrete_manager env))
       \<and> (active (continuous_manager env) = active_link_names env \<longrightarrow>
            active (continuous_manager (detachBody env1 (object_name info)))
              = active (continuous_manager env))"
  by (rule attach_detach_fields [OF cat notatt nact dis_d dis_c att])

theorem attach_detach_round_trip_witness:
  "\<exists>env1. attachBody example_env example_box = Inr env1
      \<and> link_names env1 = [''base'', ''link1'', ''box'']
      \<and> active_link_names env1 = [''link1'', ''box'']
      \<and> link_names (detachBody env1 ''box'') = [''base'', ''link1'']
      \<and> active_link_names (detachBody env1 ''box'') = [''link1'']
      \<and> active (discrete_manager (detachBody env1 ''box'')) = active (discrete_manager example_env)
      \<and> active (continuous_manager (detachBody env1 ''box'')) = active (continuous_manager example_env)
      \<and> map_option enabled (objects (discrete_manager (detachBody env1 ''box'')) ''box'') = Some False"
proof -
  have n: "object_name example_box = ''box''"
    by (simp add: example_box_def)
  have cat: "attachable_objects example_env (object_name example_box) \<noteq> None"
    by (simp add: example_env_def example_box_def)
  have notatt: "map_of (attached_bodies example_env) (object_name example_box) = None"
    by (simp add: example_env_def)
  have nact: "object_name example_box \<in> set (active_link_names example_env)
                \<longrightarrow> object_name example_box \<in> set (link_names example_env)"
    by (simp add: example_env_def example_box_def)
  have dd: "\<forall>co. objects (discrete_manager example_env) (object_name example_box) = Some co
              \<longrightarrow> \<not> enabled co"
    and dc: "\<forall>co. objects (continuous_manager example_env) (object_name example_box) = Some co
              \<longrightarrow> \<not> enabled co"
    by (simp_all add: example_env_def example_manager_def example_box_def example_object_def)
  have sd: "active (discrete_manager example_env) = active_link_names example_env"
    and sc: "active (continuous_manager example_env) = active_link_names example_env"
    by (simp_all add: example_env_def example_manager_def)
  have "\<exists>env1. attachBody example_env example_box = Inr env1"
    by (rule attachBody_returns [OF cat notatt])
       (simp_all add: example_env_def example_tree_def example_box_def)
  then obtain env1 where att: "attachBody example_env example_box = Inr env1"
    by blast
  have new: "object_name example_box \<notin> set (link_names example_env)"
    by (simp add: example_env_def example_box_def)
  from attachBody_main_path [OF att cat notatt new]
  have l1: "link_names env1 = [''base'', ''link1'', ''box'']"
    and a1: "active_link_names env1 = [''link1'', ''box'']"
    by (auto simp: example_env_def example_box_def)
  note rt = attach_detach_round_trip [OF cat notatt nact dd dc att, of "''box''"]
  have "link_names (detachBody env1 ''box'') = [''base'', ''link1'']"
    using rt unfolding n by (simp add: example_env_def)
  moreover have "active_link_names (detachBody env1 ''box'') = [''link1'']"
    using rt unfolding n by (simp add: example_env_def)
  moreover have "active (discrete_manager (detachBody env1 ''box'')) = active (discrete_manager example_env)"
    using rt sd unfolding n by blast
  moreover have "active (continuous_manager (detachBody env1 ''box''))
                   = active (continuous_manager example_env)"
    using rt sc unfolding n by blast
  moreover have "map_option enabled (objects (discrete_manager (detachBody env1 ''box'')) ''box'')
                   = Some False"
    using rt unfolding n by (simp add: example_env_def example_manager_def example_object_def)
  ultimately show ?thesis using att l1 a1 by blast
qed

end
